theory Spec2Isabelle
  imports Complex_Main
begin

section \<open>JavaScript strings\<close>

text \<open>
  A JavaScript string is modelled as a \<^typ>\<open>string\<close>: the list of its code units,
  for the code units below 256. The white space of \<open>String.prototype.trim\<close> and
  of the regular-expression class \<open>\s\<close> is then TAB, LF, VT, FF, CR, SPACE and
  NBSP; the line terminators that \<open>.\<close> refuses are LF and CR.
\<close>

definition is_ws :: "char \<Rightarrow> bool" where
  "is_ws c = (c \<in> set [CHR 0x09, CHR 0x0A, CHR 0x0B, CHR 0x0C, CHR 0x0D, CHR 0x20, CHR 0xA0])"

definition is_line_terminator :: "char \<Rightarrow> bool" where
  "is_line_terminator c = (c = CHR 0x0A \<or> c = CHR 0x0D)"

definition trim :: "string \<Rightarrow> string" where
  "trim s = rev (dropWhile is_ws (rev (dropWhile is_ws s)))"

definition startsWith :: "string \<Rightarrow> string \<Rightarrow> bool" where
  "startsWith s p = (take (length p) s = p)"

definition endsWith :: "string \<Rightarrow> string \<Rightarrow> bool" where
  "endsWith s p = (length p \<le> length s \<and> drop (length s - length p) s = p)"

fun includesStr :: "string \<Rightarrow> string \<Rightarrow> bool" where
  "includesStr [] p = (p = [])"
| "includesStr (c # cs) p = (startsWith (c # cs) p \<or> includesStr cs p)"

text \<open>\<open>s.split(d)\<close> for a one-character separator: never the empty list.\<close>

fun splitOn :: "char \<Rightarrow> string \<Rightarrow> string list" where
  "splitOn d [] = [[]]"
| "splitOn d (c # cs) =
     (if c = d then [] # splitOn d cs
      else (let r = splitOn d cs in (c # hd r) # tl r))"

text \<open>\<open>s.slice(a, -b)\<close>: the string without its first \<open>a\<close> and last \<open>b\<close> code
  units, empty when fewer than \<open>a + b\<close> are there.\<close>

definition slice :: "nat \<Rightarrow> nat \<Rightarrow> string \<Rightarrow> string" where
  "slice a b s = take (length s - b - a) (drop a s)"

section \<open>The line formatter \<open>formatMessage\<close>\<close>

text \<open>
  The regular expression \<open>\*\*(.*?)\*\*\<close>. After the opening stars, the lazy
  \<open>.*?\<close> takes one more code unit at a time, never a line terminator, until two
  stars follow: \<open>lazy_close\<close> gives the captured group and the text after the
  closing stars.
\<close>

fun lazy_close :: "string \<Rightarrow> (string \<times> string) option" where
  "lazy_close [] = None"
| "lazy_close (c # cs) =
     (if startsWith (c # cs) ''**'' then Some ([], drop 2 (c # cs))
      else if is_line_terminator c then None
      else (case lazy_close cs of
              None \<Rightarrow> None
            | Some (g, r) \<Rightarrow> Some (c # g, r)))"

definition bold_at :: "string \<Rightarrow> (string \<times> string) option" where
  "bold_at s = (if startsWith s ''**'' then lazy_close (drop 2 s) else None)"

lemma lazy_close_length: "lazy_close s = Some (g, r) \<Longrightarrow> length g + length r + 2 = length s"
proof (induction s arbitrary: g r)
  case Nil
  then show ?case by simp
next
  case (Cons c cs)
  show ?case
  proof (cases "startsWith (c # cs) ''**''")
    case True
    then have "2 \<le> length (c # cs)"
      by (cases cs) (auto simp: startsWith_def)
    with True Cons.prems show ?thesis by auto
  next
    case False
    with Cons.prems obtain g' where "lazy_close cs = Some (g', r)" and "g = c # g'"
      by (auto split: if_splits option.splits)
    with Cons.IH show ?thesis by fastforce
  qed
qed

lemma bold_at_length: "bold_at s = Some (g, r) \<Longrightarrow> length g + length r + 4 = length s"
  by (auto simp: bold_at_def startsWith_def dest!: lazy_close_length split: if_splits)

text \<open>\<open>cell.replace(/\*\*(.*?)\*\*/g, '$1')\<close>: every match, from left to right, is
  replaced by its group; the scan goes on after the match.\<close>

function stripBold :: "string \<Rightarrow> string" where
  "stripBold [] = []"
| "stripBold (c # cs) =
     (case bold_at (c # cs) of
        Some (g, r) \<Rightarrow> g @ stripBold r
      | None \<Rightarrow> c # stripBold cs)"
  by pat_completeness auto
termination
  by (relation "measure length") (auto dest: bold_at_length)

text \<open>\<open>line.split(/(\*\*.*?\*\*)/)\<close>: the text between the matches, and, because the
  pattern is one capturing group, each match itself; \<open>acc\<close> is the text since the
  last match, reversed.\<close>

function splitBold :: "string \<Rightarrow> string \<Rightarrow> string list" where
  "splitBold acc [] = [rev acc]"
| "splitBold acc (c # cs) =
     (case bold_at (c # cs) of
        Some (g, r) \<Rightarrow> rev acc # (''**'' @ g @ ''**'') # splitBold [] r
      | None \<Rightarrow> splitBold (c # acc) cs)"
  by pat_completeness auto
termination
  by (relation "measure (\<lambda>(acc, s). length s)") (auto dest: bold_at_length)

text \<open>The nodes \<open>formatMessage\<close> returns, one per line; a cell and a span keep their
  \<open>className\<close> (a span without one has the empty string).\<close>

datatype block =
    Divider
  | Row "(string \<times> string) list"
  | Spans "(string \<times> string) list"
  | Italic string
  | Spacer
  | Text string

definition cellClass :: "nat \<Rightarrow> string" where
  "cellClass cellIndex = (if cellIndex = 0 then ''font-medium text-blue-300'' else ''text-gray-200'')"

definition renderCells :: "string list \<Rightarrow> (string \<times> string) list" where
  "renderCells cells =
     map (\<lambda>(cellIndex, cell). (cellClass cellIndex, stripBold (trim cell)))
         (zip [0 ..< length cells] cells)"

definition renderPart :: "string \<Rightarrow> string \<times> string" where
  "renderPart part =
     (if startsWith part ''**'' \<and> endsWith part ''**''
      then (''font-semibold text-blue-300'', slice 2 2 part)
      else ('''', part))"

definition cellsOf :: "string \<Rightarrow> string list" where
  "cellsOf line = filter (\<lambda>cell. trim cell \<noteq> '''') (splitOn CHR ''|'' line)"

text \<open>The rules after the table rules: bold, italic, empty line, plain text.\<close>

definition formatOther :: "string \<Rightarrow> block" where
  "formatOther line =
     (if includesStr line ''**'' then Spans (map renderPart (splitBold [] line))
      else if startsWith line ''*'' \<and> endsWith line ''*'' \<and> \<not> startsWith line ''**''
        then Italic (slice 1 1 line)
      else if trim line = '''' then Spacer
      else Text line)"

definition formatLine :: "string \<Rightarrow> block" where
  "formatLine line =
     (if includesStr line ''|'' then
        (let cells = cellsOf line in
         if includesStr line ''---'' then Divider
         else if length cells > 1 then Row (renderCells cells)
         else formatOther line)
      else formatOther line)"

definition formatMessage :: "string \<Rightarrow> block list" where
  "formatMessage text = map formatLine (splitOn CHR 0x0A text)"

section \<open>The image pre-pass \<open>formatTextWithImages\<close>\<close>

text \<open>
  \<open>input.replace(/(https?:\/\/[^\s]+(\.png|\.jpg|\.jpeg|\.gif))/gi, "![]($1)")\<close>.
  With the flag \<open>i\<close> a letter of the pattern matches both of its cases, and no
  other code unit; \<open>lower\<close> maps the upper case ASCII letters to lower case.
\<close>

definition lower :: "char \<Rightarrow> char" where
  "lower c = (let n = of_char c :: nat in if 65 \<le> n \<and> n \<le> 90 then char_of (n + 32) else c)"

definition ci_startsWith :: "string \<Rightarrow> string \<Rightarrow> bool" where
  "ci_startsWith s p = (map lower (take (length p) s) = p)"

definition ci_endsWith :: "string \<Rightarrow> string \<Rightarrow> bool" where
  "ci_endsWith s p = (length p \<le> length s \<and> map lower (drop (length s - length p) s) = p)"

text \<open>\<open>https?:\/\/\<close>: the optional \<open>s\<close> is taken when it is there, and giving it
  back never helps, since \<open>:\<close> must follow \<open>http\<close> then.\<close>

definition scheme_len :: "string \<Rightarrow> nat option" where
  "scheme_len s =
     (if ci_startsWith s ''https://'' then Some 8
      else if ci_startsWith s ''http://'' then Some 7
      else None)"

text \<open>\<open>(\.png|\.jpg|\.jpeg|\.gif)\<close>: the alternatives in their order.\<close>

definition ext_len :: "string \<Rightarrow> nat option" where
  "ext_len s =
     (if ci_startsWith s ''.png'' then Some 4
      else if ci_startsWith s ''.jpg'' then Some 4
      else if ci_startsWith s ''.jpeg'' then Some 5
      else if ci_startsWith s ''.gif'' then Some 4
      else None)"

text \<open>\<open>[^\s]+\<close> followed by the extension: the greedy \<open>+\<close> first tries to take
  one more code unit, and the extension is tried where that fails. The result is the
  number of code units matched.\<close>

fun nonspace_then_ext :: "string \<Rightarrow> nat option" where
  "nonspace_then_ext [] = None"
| "nonspace_then_ext (c # cs) =
     (if is_ws c then None
      else (case nonspace_then_ext cs of
              Some n \<Rightarrow> Some (Suc n)
            | None \<Rightarrow> (case ext_len cs of Some e \<Rightarrow> Some (Suc e) | None \<Rightarrow> None)))"

definition match_at :: "string \<Rightarrow> nat option" where
  "match_at s =
     (case scheme_len s of
        None \<Rightarrow> None
      | Some k \<Rightarrow> (case nonspace_then_ext (drop k s) of None \<Rightarrow> None | Some n \<Rightarrow> Some (k + n)))"

lemma nonspace_then_ext_bound: "nonspace_then_ext t = Some n \<Longrightarrow> 0 < n \<and> n \<le> length t"
proof (induction t arbitrary: n)
  case Nil
  then show ?case by simp
next
  case (Cons c cs)
  show ?case
  proof (cases "nonspace_then_ext cs")
    case None
    with Cons.prems obtain e where e: "ext_len cs = Some e" "n = Suc e"
      by (auto split: if_splits option.splits)
    then have "e \<le> length cs"
      by (auto simp: ext_len_def ci_startsWith_def split: if_splits dest!: arg_cong [where f = length])
    with e show ?thesis by simp
  next
    case (Some m)
    with Cons.prems have "n = Suc m" by (auto split: if_splits)
    with Cons.IH [OF Some] show ?thesis by simp
  qed
qed

lemma match_at_bound: "match_at s = Some n \<Longrightarrow> 0 < n \<and> n \<le> length s"
  by (auto simp: match_at_def split: option.splits dest!: nonspace_then_ext_bound)

text \<open>The global replacement: a match is wrapped into \<open>![](\<close> and \<open>)\<close> and the
  scan goes on after it; a code unit where nothing matches is copied.\<close>

function formatTextWithImages :: "string \<Rightarrow> string" where
  "formatTextWithImages [] = []"
| "formatTextWithImages (c # cs) =
     (case match_at (c # cs) of
        Some n \<Rightarrow> ''![]('' @ take n (c # cs) @ '')'' @ formatTextWithImages (drop n (c # cs))
      | None \<Rightarrow> c # formatTextWithImages cs)"
  by pat_completeness auto
termination
  by (relation "measure length") (auto dest: match_at_bound)

text \<open>
  The URLs the pattern describes, said without the matching procedure: a scheme
  \<open>http://\<close> or \<open>https://\<close> in any letter case, then code units that are not
  white space, the last of them one of the four extensions in any letter case, with
  at least one code unit between the scheme and the extension.
\<close>

definition image_exts :: "string list" where
  "image_exts = [''.png'', ''.jpg'', ''.jpeg'', ''.gif'']"

definition ends_in_image_ext :: "string \<Rightarrow> bool" where
  "ends_in_image_ext r = (\<exists>e\<in>set image_exts. length e < length r \<and> ci_endsWith r e)"

definition image_url :: "string \<Rightarrow> bool" where
  "image_url u =
     (case scheme_len u of
        None \<Rightarrow> False
      | Some k \<Rightarrow> list_all (\<lambda>c. \<not> is_ws c) (drop k u) \<and> ends_in_image_ext (drop k u))"

definition image_url_prefix :: "string \<Rightarrow> nat \<Rightarrow> bool" where
  "image_url_prefix s n = (n \<le> length s \<and> image_url (take n s))"

text \<open>The first \<open>n\<close> code units of \<open>t\<close> are free of white space and end in an
  extension that is not all of them.\<close>

definition run_with_ext :: "string \<Rightarrow> nat \<Rightarrow> bool" where
  "run_with_ext t n =
     (n \<le> length t \<and> list_all (\<lambda>c. \<not> is_ws c) (take n t) \<and> ends_in_image_ext (take n t))"

text \<open>
  A bare URL, in the words of the specification: the URL stands in the text by
  itself, from the start of the text or a white space to the end of the text or the
  next white space. \<open>bare_image_url_at text i n\<close> says so of the \<open>n\<close> code units
  of \<open>text\<close> from index \<open>i\<close>.
\<close>

definition bare_image_url_at :: "string \<Rightarrow> nat \<Rightarrow> nat \<Rightarrow> bool" where
  "bare_image_url_at text i n =
     (i + n \<le> length text \<and> image_url (take n (drop i text))
      \<and> (i = 0 \<or> is_ws (text ! (i - 1)))
      \<and> (i + n = length text \<or> is_ws (text ! (i + n))))"

section \<open>JavaScript values, exceptions and the outside world\<close>

text \<open>
  The values \<open>JSON.parse\<close> and \<open>response.json()\<close> produce, and \<open>undefined\<close>.
  TypeScript's annotations are not checked when the program runs, so the body of a
  response is any JSON value, and the \<open>text\<close> of a message is whatever
  \<open>data.output || '...'\<close> evaluates to. An object is the list of its properties,
  for each key the first entry; a number is the value of its literal.
\<close>

datatype jsval =
    JUndefined
  | JNull
  | JBool bool
  | JNumber rat
  | JString string
  | JArray "jsval list"
  | JObject "(string \<times> jsval) list"

datatype exn = NetworkError | HttpError | SyntaxError | TypeError | QuotaExceededError

definition truthy :: "jsval \<Rightarrow> bool" where
  "truthy v =
     (case v of
        JUndefined \<Rightarrow> False
      | JNull \<Rightarrow> False
      | JBool b \<Rightarrow> b
      | JNumber n \<Rightarrow> n \<noteq> 0
      | JString s \<Rightarrow> s \<noteq> []
      | JArray xs \<Rightarrow> True
      | JObject kvs \<Rightarrow> True)"

text \<open>\<open>a || b\<close>.\<close>

definition js_or :: "jsval \<Rightarrow> jsval \<Rightarrow> jsval" where
  "js_or a b = (if truthy a then a else b)"

text \<open>\<open>data.output\<close>: reading a property of \<open>null\<close> (or \<open>undefined\<close>) throws a
  TypeError; a value that is not an object, or an object without the key, has no
  such property.\<close>

definition output_of :: "jsval \<Rightarrow> exn + jsval" where
  "output_of data =
     (case data of
        JUndefined \<Rightarrow> Inl TypeError
      | JNull \<Rightarrow> Inl TypeError
      | JObject kvs \<Rightarrow> Inr (case map_of kvs ''output'' of None \<Rightarrow> JUndefined | Some v \<Rightarrow> v)
      | _ \<Rightarrow> Inr JUndefined)"

datatype sender = User | Bot

text \<open>The interface \<open>Message\<close>; \<open>id\<close> and \<open>timestamp\<close> in milliseconds since the
  epoch, \<open>requestId\<close> only in the support widget.\<close>

record message =
  msg_id :: int
  msg_text :: jsval
  sender :: sender
  timestamp :: int
  requestId :: "string option"

text \<open>The JSON body of the POST request; the chat application sends the prompt
  alone.\<close>

record request =
  endpoint :: string
  prompt :: string
  req_requestId :: "string option"
  req_sessionId :: "string option"
  req_timestamp :: "int option"
  req_userAgent :: "string option"
  req_url :: "string option"

text \<open>How \<open>fetch\<close> settles: the promise rejects, or a response arrives with its
  \<open>ok\<close> flag and a body that \<open>response.json()\<close> parses or not.\<close>

datatype response_body = Malformed | Parsed jsval

datatype fetch_result = Rejected | Responded bool response_body

text \<open>
  What \<open>JSON.parse\<close> makes of a stored history: \<open>null\<close>, a value that is not an
  array, or an array of messages (the type \<open>Message[]\<close> the code declares for it;
  each \<open>timestamp\<close> is the instant \<open>new Date\<close> reads from the stored string).
\<close>

datatype stored_value = PNull | PNotArray | PMessages "message list"

text \<open>
  The library functions and the browser's store are parameters: \<open>JSON_parse\<close>
  (\<open>None\<close> when it throws a SyntaxError), \<open>JSON_stringify\<close> on a list of messages,
  and \<open>fits\<close>, which says whether the store accepts its new content
  (\<open>localStorage.setItem\<close> throws when the quota is exceeded).
\<close>

record env =
  JSON_parse :: "string \<Rightarrow> stored_value option"
  JSON_stringify :: "message list \<Rightarrow> string"
  fits :: "(string \<rightharpoonup> string) \<Rightarrow> bool"

definition setItem :: "env \<Rightarrow> string \<Rightarrow> string \<Rightarrow> (string \<rightharpoonup> string) \<Rightarrow> exn + (string \<rightharpoonup> string)" where
  "setItem e key val store =
     (let store' = store(key \<mapsto> val) in
      if fits e store' then Inr store' else Inl QuotaExceededError)"

definition removeItem :: "string \<Rightarrow> (string \<rightharpoonup> string) \<Rightarrow> (string \<rightharpoonup> string)" where
  "removeItem key store = store(key := None)"

text \<open>
  What the environment supplies during one call of \<open>sendMessage\<close>: the readings of
  \<open>Date.now()\<close> and \<open>new Date()\<close> when the user's message is built (\<open>now1\<close>,
  \<open>stamp1\<close>) and when the reply or the error message is built (\<open>now2\<close>,
  \<open>stamp2\<close>), how the request settles, and for the widget the value of
  \<open>generateUniqueId()\<close>, the instant sent with the request and the browser's
  \<open>navigator.userAgent\<close> and \<open>window.location.href\<close>.
\<close>

record call =
  now1 :: int
  stamp1 :: int
  fetched :: fetch_result
  now2 :: int
  stamp2 :: int
  uniqueId :: string
  sent_at :: int
  userAgent :: string
  href :: string

text \<open>The state of a component and of the world around it: the three state
  variables, the store, and the requests issued so far.\<close>

record chat =
  messages :: "message list"
  inputMessage :: string
  isLoading :: bool
  localStorage :: "string \<rightharpoonup> string"
  requests :: "request list"

record widget = chat +
  userSessionId :: string

text \<open>\<open>try { body } catch (error) { handler } finally { fin }\<close>, where the body
  changes the state only with its last statement.\<close>

definition try_catch_finally :: "exn + 's \<Rightarrow> (exn \<Rightarrow> exn + 's) \<Rightarrow> ('s \<Rightarrow> 's) \<Rightarrow> exn + 's" where
  "try_catch_finally body handler fin =
     (case body of
        Inr s \<Rightarrow> Inr (fin s)
      | Inl error \<Rightarrow> (case handler error of Inr s \<Rightarrow> Inr (fin s) | Inl error' \<Rightarrow> Inl error'))"

definition fallbackText :: string where
  "fallbackText = ''Sorry, I could not process your request.''"

definition errorText :: string where
  "errorText = ''Sorry, I encountered an error while processing your request. Please try again.''"

text \<open>The statements of the \<open>try\<close> block up to the bot's message: the text of the
  reply, or the exception thrown.\<close>

definition replyText :: "fetch_result \<Rightarrow> exn + jsval" where
  "replyText r =
     (case r of
        Rejected \<Rightarrow> Inl NetworkError
      | Responded ok body \<Rightarrow>
          if \<not> ok then Inl HttpError
          else (case body of
                  Malformed \<Rightarrow> Inl SyntaxError
                | Parsed data \<Rightarrow>
                    (case output_of data of
                       Inl error \<Rightarrow> Inl error
                     | Inr out \<Rightarrow> Inr (js_or out (JString fallbackText)))))"

section \<open>The chat application \<open>ChatApp\<close>\<close>

text \<open>
  The repository has the component twice, once with the line formatter and once with
  the markdown view; state, effects and \<open>sendMessage\<close> are the same in both.

  The effect on \<open>[messages]\<close>: React runs it after every rendering in which
  \<open>messages\<close> has changed, so \<open>setMessages\<close> is modelled as the update followed
  by the effect. Each \<open>setMessages\<close> of \<open>sendMessage\<close> is in a task of its own
  (the \<open>await\<close> separates them), so the effect runs after each.
\<close>

definition ChatApp_saveEffect :: "env \<Rightarrow> chat \<Rightarrow> chat" where
  "ChatApp_saveEffect e w =
     (if length (messages w) > 0 then
        (let messagesToSave =
               drop (nat (max (int (length (messages w)) - 100) 0)) (messages w) in
         case setItem e ''chatHistory'' (JSON_stringify e messagesToSave) (localStorage w) of
           Inr store \<Rightarrow> w\<lparr>localStorage := store\<rparr>
         | Inl error \<Rightarrow> w)
      else w)"

definition ChatApp_setMessages :: "env \<Rightarrow> (message list \<Rightarrow> message list) \<Rightarrow> chat \<Rightarrow> chat" where
  "ChatApp_setMessages e f w = ChatApp_saveEffect e (w\<lparr>messages := f (messages w)\<rparr>)"

text \<open>\<open>JSON.parse(storedMessages).map(...)\<close>: a SyntaxError from \<open>JSON.parse\<close>, a
  TypeError where the value has no \<open>map\<close>.\<close>

definition parseStored :: "env \<Rightarrow> string \<Rightarrow> exn + message list" where
  "parseStored e storedMessages =
     (case JSON_parse e storedMessages of
        None \<Rightarrow> Inl SyntaxError
      | Some PNull \<Rightarrow> Inl TypeError
      | Some PNotArray \<Rightarrow> Inl TypeError
      | Some (PMessages ms) \<Rightarrow> Inr ms)"

definition ChatApp_loadEffect :: "env \<Rightarrow> chat \<Rightarrow> chat" where
  "ChatApp_loadEffect e w =
     (case localStorage w ''chatHistory'' of
        None \<Rightarrow> w
      | Some storedMessages \<Rightarrow>
          if storedMessages = [] then w
          else (case parseStored e storedMessages of
                  Inr parsedMessages \<Rightarrow> ChatApp_setMessages e (\<lambda>prev. parsedMessages) w
                | Inl error \<Rightarrow> w\<lparr>localStorage := removeItem ''chatHistory'' (localStorage w)\<rparr>))"

text \<open>Mounting: the initial state, then the effects (the saving effect does nothing
  on the initial, empty history).\<close>

definition ChatApp_mount :: "env \<Rightarrow> (string \<rightharpoonup> string) \<Rightarrow> chat" where
  "ChatApp_mount e store =
     ChatApp_loadEffect e
       \<lparr>messages = [], inputMessage = [], isLoading = False, localStorage = store, requests = []\<rparr>"

text \<open>\<open>sendMessage\<close> up to its \<open>await\<close>: \<open>None\<close> when the guard returns.\<close>

definition ChatApp_dispatch :: "env \<Rightarrow> call \<Rightarrow> chat \<Rightarrow> chat option" where
  "ChatApp_dispatch e c w =
     (if trim (inputMessage w) = [] \<or> isLoading w then None
      else
        (let userMessage = \<lparr>msg_id = now1 c, msg_text = JString (inputMessage w), sender = User,
                            timestamp = stamp1 c, requestId = None\<rparr>;
             w1 = ChatApp_setMessages e (\<lambda>prev. prev @ [userMessage]) w;
             w2 = w1\<lparr>inputMessage := [], isLoading := True\<rparr>
         in Some (w2\<lparr>requests := requests w2 @
              [\<lparr>endpoint = ''https://n8n.moveon.run/webhook/chat'', prompt = inputMessage w,
                req_requestId = None, req_sessionId = None, req_timestamp = None,
                req_userAgent = None, req_url = None\<rparr>]\<rparr>)))"

text \<open>\<open>sendMessage\<close> from the settling of the request on.\<close>

definition ChatApp_settle :: "env \<Rightarrow> call \<Rightarrow> chat \<Rightarrow> exn + chat" where
  "ChatApp_settle e c w =
     try_catch_finally
       (case replyText (fetched c) of
          Inl error \<Rightarrow> Inl error
        | Inr t \<Rightarrow>
            Inr (ChatApp_setMessages e
                   (\<lambda>prev. prev @ [\<lparr>msg_id = now2 c + 1, msg_text = t, sender = Bot,
                                      timestamp = stamp2 c, requestId = None\<rparr>]) w))
       (\<lambda>error.
            Inr (ChatApp_setMessages e
                   (\<lambda>prev. prev @ [\<lparr>msg_id = now2 c + 1, msg_text = JString errorText, sender = Bot,
                                      timestamp = stamp2 c, requestId = None\<rparr>]) w))
       (\<lambda>w'. w'\<lparr>isLoading := False\<rparr>)"

definition ChatApp_sendMessage :: "env \<Rightarrow> call \<Rightarrow> chat \<Rightarrow> exn + chat" where
  "ChatApp_sendMessage e c w =
     (case ChatApp_dispatch e c w of
        None \<Rightarrow> Inr w
      | Some w1 \<Rightarrow> ChatApp_settle e c w1)"

section \<open>The support widget \<open>SupportChatWidget\<close>\<close>

text \<open>The widget keeps its history under \<open>STORAGE_KEYS.CHAT_MESSAGES\<close>. Its two
  other records (the session identifier and the open and minimised flags) are under
  other keys and are left out.\<close>

definition CHAT_MESSAGES :: string where
  "CHAT_MESSAGES = ''travela_chat_messages''"

definition saveToLocalStorage :: "env \<Rightarrow> string \<Rightarrow> message list \<Rightarrow> (string \<rightharpoonup> string) \<Rightarrow> (string \<rightharpoonup> string)" where
  "saveToLocalStorage e key data store =
     (case setItem e key (JSON_stringify e data) store of
        Inr store' \<Rightarrow> store'
      | Inl error \<Rightarrow> store)"

text \<open>\<open>getFromLocalStorage\<close>: \<open>null\<close> when there is no item or an empty one, and when
  \<open>JSON.parse\<close> throws.\<close>

definition getFromLocalStorage :: "env \<Rightarrow> string \<Rightarrow> (string \<rightharpoonup> string) \<Rightarrow> stored_value" where
  "getFromLocalStorage e key store =
     (case store key of
        None \<Rightarrow> PNull
      | Some item \<Rightarrow>
          if item = [] then PNull
          else (case JSON_parse e item of None \<Rightarrow> PNull | Some v \<Rightarrow> v))"

definition Widget_saveEffect :: "env \<Rightarrow> widget \<Rightarrow> widget" where
  "Widget_saveEffect e w =
     (if length (messages w) > 0
      then w\<lparr>localStorage := saveToLocalStorage e CHAT_MESSAGES (messages w) (localStorage w)\<rparr>
      else w)"

definition Widget_setMessages :: "env \<Rightarrow> (message list \<Rightarrow> message list) \<Rightarrow> widget \<Rightarrow> widget" where
  "Widget_setMessages e f w = Widget_saveEffect e (w\<lparr>messages := f (messages w)\<rparr>)"

definition welcomeMessage :: "int \<Rightarrow> int \<Rightarrow> message" where
  "welcomeMessage now stamp =
     \<lparr>msg_id = now,
      msg_text = JString ''Hello! I'm your Travela support assistant. How can I help you today?'',
      sender = Bot, timestamp = stamp, requestId = None\<rparr>"

text \<open>The loading effect, with the clock readings for the welcome message.\<close>

definition Widget_loadEffect :: "env \<Rightarrow> int \<Rightarrow> int \<Rightarrow> widget \<Rightarrow> widget" where
  "Widget_loadEffect e now stamp w =
     (case getFromLocalStorage e CHAT_MESSAGES (localStorage w) of
        PMessages savedMessages \<Rightarrow>
          if length savedMessages > 0 then Widget_setMessages e (\<lambda>prev. savedMessages) w
          else Widget_setMessages e (\<lambda>prev. [welcomeMessage now stamp]) w
      | _ \<Rightarrow> Widget_setMessages e (\<lambda>prev. [welcomeMessage now stamp]) w)"

definition Widget_mount :: "env \<Rightarrow> int \<Rightarrow> int \<Rightarrow> string \<Rightarrow> (string \<rightharpoonup> string) \<Rightarrow> widget" where
  "Widget_mount e now stamp session store =
     Widget_loadEffect e now stamp
       \<lparr>messages = [], inputMessage = [], isLoading = False, localStorage = store, requests = [],
        userSessionId = session\<rparr>"

definition Widget_dispatch :: "env \<Rightarrow> call \<Rightarrow> widget \<Rightarrow> widget option" where
  "Widget_dispatch e c w =
     (if trim (inputMessage w) = [] \<or> isLoading w then None
      else
        (let userMessage = \<lparr>msg_id = now1 c, msg_text = JString (inputMessage w), sender = User,
                            timestamp = stamp1 c, requestId = Some (uniqueId c)\<rparr>;
             w1 = Widget_setMessages e (\<lambda>prev. prev @ [userMessage]) w;
             w2 = w1\<lparr>inputMessage := [], isLoading := True\<rparr>
         in Some (w2\<lparr>requests := requests w2 @
              [\<lparr>endpoint = ''https://n8n.travela.world/webhook/custom_wa_bot'',
                prompt = inputMessage w, req_requestId = Some (uniqueId c),
                req_sessionId = Some (userSessionId w), req_timestamp = Some (sent_at c),
                req_userAgent = Some (userAgent c), req_url = Some (href c)\<rparr>]\<rparr>)))"

definition Widget_settle :: "env \<Rightarrow> call \<Rightarrow> widget \<Rightarrow> exn + widget" where
  "Widget_settle e c w =
     try_catch_finally
       (case replyText (fetched c) of
          Inl error \<Rightarrow> Inl error
        | Inr t \<Rightarrow>
            Inr (Widget_setMessages e
                   (\<lambda>prev. prev @ [\<lparr>msg_id = now2 c + 1, msg_text = t, sender = Bot,
                                      timestamp = stamp2 c, requestId = Some (uniqueId c)\<rparr>]) w))
       (\<lambda>error.
            Inr (Widget_setMessages e
                   (\<lambda>prev. prev @ [\<lparr>msg_id = now2 c + 1, msg_text = JString errorText, sender = Bot,
                                      timestamp = stamp2 c, requestId = Some (uniqueId c)\<rparr>]) w))
       (\<lambda>w'. w'\<lparr>isLoading := False\<rparr>)"

definition Widget_sendMessage :: "env \<Rightarrow> call \<Rightarrow> widget \<Rightarrow> exn + widget" where
  "Widget_sendMessage e c w =
     (case Widget_dispatch e c w of
        None \<Rightarrow> Inr w
      | Some w1 \<Rightarrow> Widget_settle e c w1)"

section \<open>Derived notions and example inputs\<close>

text \<open>The text of the message that is appended when the request has settled.\<close>

definition settledText :: "fetch_result \<Rightarrow> jsval" where
  "settledText r = (case replyText r of Inl error \<Rightarrow> JString errorText | Inr t \<Rightarrow> t)"

text \<open>An environment whose store accepts every write and whose \<open>JSON.stringify\<close>
  writes one letter for each message, \<open>u\<close> for the user's and \<open>b\<close> for the
  bot's; a call with its clock readings; a fresh state of each component with a
  given input.\<close>

definition example_env :: env where
  "example_env =
     \<lparr>JSON_parse = (\<lambda>s. None),
      JSON_stringify = map (\<lambda>m. if sender m = User then CHR ''u'' else CHR ''b''),
      fits = (\<lambda>store. True)\<rparr>"

definition example_call :: "int \<Rightarrow> fetch_result \<Rightarrow> int \<Rightarrow> call" where
  "example_call t1 r t2 =
     \<lparr>now1 = t1, stamp1 = t1, fetched = r, now2 = t2, stamp2 = t2,
      uniqueId = ''chat_1000_k3j9x0q1z'', sent_at = t1, userAgent = ''Mozilla/5.0'',
      href = ''https://travela.world/''\<rparr>"

definition example_chat :: "string \<Rightarrow> chat" where
  "example_chat input =
     \<lparr>messages = [], inputMessage = input, isLoading = False, localStorage = Map.empty,
      requests = []\<rparr>"

definition example_widget :: "string \<Rightarrow> widget" where
  "example_widget input =
     \<lparr>messages = [], inputMessage = input, isLoading = False, localStorage = Map.empty,
      requests = [], userSessionId = ''chat_900_a1b2c3d4e''\<rparr>"

text \<open>The handler of the input field, \<open>setInputMessage(e.target.value)\<close>.\<close>

definition setInputMessage :: "string \<Rightarrow> 'a chat_scheme \<Rightarrow> 'a chat_scheme" where
  "setInputMessage s w = w\<lparr>inputMessage := s\<rparr>"

text \<open>A history of \<open>n\<close> earlier messages, with the identifiers \<open>0\<close> to \<open>n - 1\<close>.\<close>

definition example_history :: "nat \<Rightarrow> message list" where
  "example_history n =
     map (\<lambda>i. \<lparr>msg_id = int i, msg_text = JString ''earlier'',
               sender = (if even i then User else Bot), timestamp = int i, requestId = None\<rparr>)
         [0 ..< n]"

text \<open>The same environment with a store that refuses every write.\<close>

definition full_env :: env where
  "full_env = example_env\<lparr>fits := (\<lambda>store. False)\<rparr>"

text \<open>What a call that returned normally has left: the history, and the item of the
  store under a key.\<close>

definition history_after :: "exn + 'a chat_scheme \<Rightarrow> message list option" where
  "history_after r = (case r of Inl error \<Rightarrow> None | Inr w \<Rightarrow> Some (messages w))"

definition stored_after :: "string \<Rightarrow> exn + 'a chat_scheme \<Rightarrow> string option" where
  "stored_after key r = (case r of Inl error \<Rightarrow> None | Inr w \<Rightarrow> localStorage w key)"

text \<open>A session: the user types an input and submits it, one call after the other
  has returned.\<close>

fun ChatApp_turns :: "env \<Rightarrow> (string \<times> call) list \<Rightarrow> chat \<Rightarrow> exn + chat" where
  "ChatApp_turns e [] w = Inr w"
| "ChatApp_turns e ((input, c) # rest) w =
     (case ChatApp_sendMessage e c (setInputMessage input w) of
        Inl error \<Rightarrow> Inl error
      | Inr w' \<Rightarrow> ChatApp_turns e rest w')"

fun Widget_turns :: "env \<Rightarrow> (string \<times> call) list \<Rightarrow> widget \<Rightarrow> exn + widget" where
  "Widget_turns e [] w = Inr w"
| "Widget_turns e ((input, c) # rest) w =
     (case Widget_sendMessage e c (setInputMessage input w) of
        Inl error \<Rightarrow> Inl error
      | Inr w' \<Rightarrow> Widget_turns e rest w')"

section \<open>Facts about the string operations\<close>

lemma startsWith_iff: "startsWith s p \<longleftrightarrow> (\<exists>v. s = p @ v)"
  unfolding startsWith_def
  by (metis append_eq_conv_conj append_take_drop_id)

lemma includesStr_iff: "includesStr s p \<longleftrightarrow> (\<exists>u v. s = u @ p @ v)"
proof (induction s)
  case Nil
  then show ?case by auto
next
  case (Cons c cs)
  show ?case
  proof
    assume "includesStr (c # cs) p"
    then consider "startsWith (c # cs) p" | "includesStr cs p" by auto
    then show "\<exists>u v. c # cs = u @ p @ v"
    proof cases
      case 1
      then obtain v where "c # cs = [] @ p @ v" by (auto simp: startsWith_iff)
      then show ?thesis by blast
    next
      case 2
      with Cons.IH obtain u v where "cs = u @ p @ v" by blast
      then have "c # cs = (c # u) @ p @ v" by simp
      then show ?thesis by blast
    qed
  next
    assume "\<exists>u v. c # cs = u @ p @ v"
    then obtain u v where uv: "c # cs = u @ p @ v" by blast
    show "includesStr (c # cs) p"
    proof (cases u)
      case Nil
      with uv have "startsWith (c # cs) p" by (auto simp: startsWith_iff)
      then show ?thesis by simp
    next
      case (Cons d u')
      with uv have "cs = u' @ p @ v" by simp
      with Cons.IH show ?thesis by auto
    qed
  qed
qed

lemma includesStr_char: "includesStr s [d] \<longleftrightarrow> d \<in> set s"
  by (induction s) (auto simp: startsWith_def)

section \<open>Table rows\<close>

lemma bold_at_not_star: "c \<noteq> CHR ''*'' \<Longrightarrow> bold_at (c # cs) = None"
  by (simp add: bold_at_def startsWith_def)

lemma stripBold_plain: "CHR ''*'' \<notin> set a \<Longrightarrow> stripBold (a @ s) = a @ stripBold s"
  by (induction a) (auto simp: bold_at_not_star)

lemma lazy_close_plain:
  "CHR ''*'' \<notin> set t \<Longrightarrow> \<forall>c\<in>set t. \<not> is_line_terminator c \<Longrightarrow>
   lazy_close (t @ ''**'' @ b) = Some (t, b)"
  by (induction t) (auto simp: startsWith_def)

lemma stripBold_marked:
  assumes "CHR ''*'' \<notin> set t" "\<forall>c\<in>set t. \<not> is_line_terminator c"
  shows "stripBold (''**'' @ t @ ''**'' @ b) = t @ stripBold b"
proof -
  have "bold_at (''**'' @ t @ ''**'' @ b) = Some (t, b)"
    using lazy_close_plain [OF assms, of b] by (simp add: bold_at_def startsWith_def)
  then show ?thesis by simp
qed

text \<open>
  Claim C9. The line \<open>Name | Alice | 30\<close> formats to one row of the three trimmed
  cells \<open>Name\<close>, \<open>Alice\<close>, \<open>30\<close>, the first with the label class and the others
  with the value class. Every line that has a pipe, no three dashes and two or more
  non-blank cells formats to a row (also when it contains bold markers), and the text
  of each cell is the trimmed cell with its bold markers removed: a marked run
  \<open>**t**\<close> after star-free text \<open>a\<close> leaves \<open>a\<close> and \<open>t\<close> as plain text.
\<close>

theorem table_row_cells:
  "formatMessage ''Name | Alice | 30'' =
     [Row [(''font-medium text-blue-300'', ''Name''), (''text-gray-200'', ''Alice''),
           (''text-gray-200'', ''30'')]]
   \<and> (CHR ''|'' \<in> set line \<and> \<not> includesStr line ''---'' \<and> 1 < length (cellsOf line) \<longrightarrow>
        formatLine line = Row (renderCells (cellsOf line))
        \<and> map snd (renderCells (cellsOf line)) = map (\<lambda>cell. stripBold (trim cell)) (cellsOf line))
   \<and> (CHR ''*'' \<notin> set a \<and> CHR ''*'' \<notin> set t \<and> (\<forall>c\<in>set t. \<not> is_line_terminator c) \<longrightarrow>
        stripBold (a @ ''**'' @ t @ ''**'' @ b) = a @ t @ stripBold b)"
proof (intro conjI impI)
  show "formatMessage ''Name | Alice | 30'' =
     [Row [(''font-medium text-blue-300'', ''Name''), (''text-gray-200'', ''Alice''),
           (''text-gray-200'', ''30'')]]"
    by code_simp
next
  assume h: "CHR ''|'' \<in> set line \<and> \<not> includesStr line ''---'' \<and> 1 < length (cellsOf line)"
  then show "formatLine line = Row (renderCells (cellsOf line))"
    by (simp add: formatLine_def includesStr_char)
  show "map snd (renderCells (cellsOf line)) = map (\<lambda>cell. stripBold (trim cell)) (cellsOf line)"
    unfolding renderCells_def
    by (rule nth_equalityI) (simp_all add: case_prod_beta)
next
  assume "CHR ''*'' \<notin> set a \<and> CHR ''*'' \<notin> set t \<and> (\<forall>c\<in>set t. \<not> is_line_terminator c)"
  then show "stripBold (a @ ''**'' @ t @ ''**'' @ b) = a @ t @ stripBold b"
    using stripBold_marked [of t b] by (simp add: stripBold_plain)
qed

theorem table_row_cells_witness:
  "(CHR ''|'' \<in> set ''Name | **Alice** | 30'' \<and> \<not> includesStr ''Name | **Alice** | 30'' ''---''
      \<and> 1 < length (cellsOf ''Name | **Alice** | 30''))
   \<and> formatLine ''Name | **Alice** | 30'' =
        Row [(''font-medium text-blue-300'', ''Name''), (''text-gray-200'', ''Alice''),
             (''text-gray-200'', ''30'')]
   \<and> (CHR ''*'' \<notin> set ''x'' \<and> CHR ''*'' \<notin> set ''Alice''
        \<and> list_all (\<lambda>c. \<not> is_line_terminator c) ''Alice'')
   \<and> stripBold (''x'' @ ''**'' @ ''Alice'' @ ''**'' @ ''y'') = ''xAlicey''"
proof -
  let ?line = "''Name | **Alice** | 30''"
  have h: "CHR ''|'' \<in> set ?line \<and> \<not> includesStr ?line ''---'' \<and> 1 < length (cellsOf ?line)"
    by code_simp
  have g: "CHR ''*'' \<notin> set ''x'' \<and> CHR ''*'' \<notin> set ''Alice''
      \<and> (\<forall>c\<in>set ''Alice''. \<not> is_line_terminator c)"
    by code_simp
  from table_row_cells [of ?line "''x''" "''Alice''" "''y''"] h g
  have r: "formatLine ?line = Row (renderCells (cellsOf ?line))"
    and s: "stripBold (''x'' @ ''**'' @ ''Alice'' @ ''**'' @ ''y'') = ''x'' @ ''Alice'' @ stripBold ''y''"
    by blast+
  have c: "renderCells (cellsOf ?line) =
      [(''font-medium text-blue-300'', ''Name''), (''text-gray-200'', ''Alice''),
       (''text-gray-200'', ''30'')]"
    by code_simp
  have y: "stripBold ''y'' = ''y''" by code_simp
  have l: "list_all (\<lambda>c. \<not> is_line_terminator c) ''Alice''" by code_simp
  from h g l r s c y show ?thesis by simp
qed

lemma dropWhile_Nil_iff: "dropWhile P xs = [] \<longleftrightarrow> (\<forall>x\<in>set xs. P x)"
  by (induction xs) auto

lemma trim_Nil_iff: "trim s = [] \<longleftrightarrow> (\<forall>c\<in>set s. is_ws c)"
proof -
  have "trim s = [] \<longleftrightarrow> (\<forall>c\<in>set (dropWhile is_ws s). is_ws c)"
    by (simp add: trim_def dropWhile_Nil_iff)
  also have "\<dots> \<longleftrightarrow> dropWhile is_ws s = []"
    by (metis dropWhile_Nil_iff dropWhile_idem)
  finally show ?thesis by (simp add: dropWhile_Nil_iff)
qed

lemma splitOn_not_Nil: "splitOn d s \<noteq> []"
  by (induction s) (auto simp: Let_def)

lemma splitOn_append_sep: "d \<notin> set u \<Longrightarrow> splitOn d (u @ d # v) = u # splitOn d v"
  by (induction u) (auto simp: Let_def)

lemma last_splitOn: "v \<noteq> [] \<Longrightarrow> last v \<noteq> d \<Longrightarrow> last v \<in> set (last (splitOn d v))"
proof (induction v)
  case Nil
  then show ?case by simp
next
  case (Cons c cs)
  show ?case
  proof (cases "cs = []")
    case True
    with Cons.prems show ?thesis by simp
  next
    case False
    with Cons have ih: "last cs \<in> set (last (splitOn d cs))" by simp
    then have ne: "last (splitOn d cs) \<noteq> []" by auto
    show ?thesis
    proof (cases "c = d")
      case True
      with False ih show ?thesis by (simp add: splitOn_not_Nil)
    next
      case c: False
      show ?thesis
      proof (cases "tl (splitOn d cs) = []")
        case True
        then have "splitOn d cs = [hd (splitOn d cs)]"
          using splitOn_not_Nil [of d cs] by (cases "splitOn d cs") auto
        then have "last (splitOn d cs) = hd (splitOn d cs)" by (metis last.simps)
        with True c ih False show ?thesis by (simp add: Let_def)
      next
        case tl: False
        then have "last (splitOn d cs) = last (tl (splitOn d cs))"
          using splitOn_not_Nil [of d cs] by (cases "splitOn d cs") auto
        with tl c ih False show ?thesis by (simp add: Let_def)
      qed
    qed
  qed
qed

lemma two_cells:
  assumes "CHR ''|'' \<in> set line" "line \<noteq> []" "\<not> is_ws (hd line)" "hd line \<noteq> CHR ''|''"
    "\<not> is_ws (last line)" "last line \<noteq> CHR ''|''"
  shows "2 \<le> length (cellsOf line)"
proof -
  from assms(1) obtain u v where uv: "line = u @ CHR ''|'' # v" "CHR ''|'' \<notin> set u"
    by (auto dest: split_list_first)
  with assms(2,4) have u: "u \<noteq> []" by (cases u) auto
  with uv have "hd u = hd line" by simp
  with assms(3) u have "\<not> (\<forall>c\<in>set u. is_ws c)" by (metis hd_in_set)
  then have tu: "trim u \<noteq> []" by (simp add: trim_Nil_iff)
  from uv assms(6) have v: "v \<noteq> []" by auto
  with uv have lv: "last v = last line" by simp
  with assms(6) v have "last v \<in> set (last (splitOn CHR ''|'' v))" by (intro last_splitOn) auto
  with lv assms(5) have "trim (last (splitOn CHR ''|'' v)) \<noteq> []"
    by (auto simp: trim_Nil_iff)
  moreover have "last (splitOn CHR ''|'' v) \<in> set (splitOn CHR ''|'' v)"
    by (simp add: splitOn_not_Nil)
  ultimately have "filter (\<lambda>cell. trim cell \<noteq> []) (splitOn CHR ''|'' v) \<noteq> []"
    by (auto simp: filter_empty_conv)
  then have "1 \<le> length (filter (\<lambda>cell. trim cell \<noteq> []) (splitOn CHR ''|'' v))"
    by (simp add: Suc_leI)
  with tu uv show ?thesis
    by (simp add: cellsOf_def splitOn_append_sep)
qed

lemma star_not_ws: "\<not> is_ws CHR ''*''" "\<not> is_ws CHR ''|''"
  by (simp_all add: is_ws_def)

lemma pipe_line_not_italic:
  assumes "CHR ''|'' \<in> set line" "length (cellsOf line) < 2"
  shows "\<not> (startsWith line ''*'' \<and> endsWith line ''*'')"
proof
  assume a: "startsWith line ''*'' \<and> endsWith line ''*''"
  then have ne: "line \<noteq> []" and h: "hd line = CHR ''*''"
    by (cases line; simp add: startsWith_def)+
  from a have d: "drop (length line - 1) line = ''*''" by (simp add: endsWith_def)
  from ne have "last (drop (length line - 1) line) = last line" by (intro last_drop) simp
  with d have l: "last line = CHR ''*''" by simp
  from assms(1) ne h l have "2 \<le> length (cellsOf line)"
    by (intro two_cells) (simp_all add: star_not_ws)
  with assms(2) show False by simp
qed

lemma pipe_line_not_blank: "CHR ''|'' \<in> set line \<Longrightarrow> trim line \<noteq> []"
  using star_not_ws(2) by (auto simp: trim_Nil_iff)

text \<open>
  Claim C10. A line that contains a pipe, has fewer than two non-blank cells and no
  three consecutive dashes is neither a divider nor a row: it falls through to the
  later rules, in their order (bold spans, italic line, spacer, plain text). Such a
  line never starts and ends with a star and is never blank, so of the later rules
  it is the bold rule that formats it when it contains two stars in a row, and the
  plain-text rule otherwise. The line \<open>**a** |\<close> becomes an empty plain span, the
  bold span \<open>a\<close> and the plain span \<open> |\<close>; the line \<open>a |\<close> stays as it is.
\<close>

theorem pipe_without_row:
  "(CHR ''|'' \<in> set line \<and> length (cellsOf line) < 2 \<and> \<not> (\<exists>u v. line = u @ ''---'' @ v) \<longrightarrow>
      formatLine line =
        (if includesStr line ''**'' then Spans (map renderPart (splitBold [] line))
         else if startsWith line ''*'' \<and> endsWith line ''*'' \<and> \<not> startsWith line ''**''
           then Italic (slice 1 1 line)
         else if trim line = [] then Spacer
         else Text line)
      \<and> formatLine line =
        (if \<exists>u v. line = u @ ''**'' @ v then Spans (map renderPart (splitBold [] line))
         else Text line)
      \<and> formatLine line \<noteq> Divider \<and> (\<forall>cells. formatLine line \<noteq> Row cells))
   \<and> formatLine ''**a** |'' =
        Spans [([], []), (''font-semibold text-blue-300'', ''a''), ([], '' |'')]
   \<and> formatLine ''a |'' = Text ''a |''"
proof (intro conjI impI)
  assume a: "CHR ''|'' \<in> set line \<and> length (cellsOf line) < 2
      \<and> \<not> (\<exists>u v. line = u @ ''---'' @ v)"
  then have "\<not> includesStr line ''---''"
    by (simp only: includesStr_iff not_False_eq_True)
  with a have fall: "formatLine line =
        (if includesStr line ''**'' then Spans (map renderPart (splitBold [] line))
         else if startsWith line ''*'' \<and> endsWith line ''*'' \<and> \<not> startsWith line ''**''
           then Italic (slice 1 1 line)
         else if trim line = [] then Spacer
         else Text line)"
    by (simp add: formatLine_def formatOther_def includesStr_char)
  then show "formatLine line =
        (if includesStr line ''**'' then Spans (map renderPart (splitBold [] line))
         else if startsWith line ''*'' \<and> endsWith line ''*'' \<and> \<not> startsWith line ''**''
           then Italic (slice 1 1 line)
         else if trim line = [] then Spacer
         else Text line)" .
  from a have "\<not> (startsWith line ''*'' \<and> endsWith line ''*'')" and "trim line \<noteq> []"
    by (simp_all add: pipe_line_not_italic pipe_line_not_blank)
  with fall have "formatLine line =
        (if includesStr line ''**'' then Spans (map renderPart (splitBold [] line))
         else Text line)"
    by auto
  then show "formatLine line =
        (if \<exists>u v. line = u @ ''**'' @ v then Spans (map renderPart (splitBold [] line))
         else Text line)"
    by (simp only: includesStr_iff)
  from fall show "formatLine line \<noteq> Divider" by (simp split: if_splits)
  from fall show "\<forall>cells. formatLine line \<noteq> Row cells" by (simp split: if_splits)
next
  show "formatLine ''**a** |'' =
        Spans [([], []), (''font-semibold text-blue-300'', ''a''), ([], '' |'')]"
    by code_simp
next
  show "formatLine ''a |'' = Text ''a |''" by code_simp
qed

theorem pipe_without_row_witness:
  "(CHR ''|'' \<in> set ''x **a** | '' \<and> length (cellsOf ''x **a** | '') < 2
      \<and> \<not> (\<exists>u v. ''x **a** | '' = u @ ''---'' @ v))
   \<and> formatLine ''x **a** | '' =
        Spans [([], ''x ''), (''font-semibold text-blue-300'', ''a''), ([], '' | '')]
   \<and> (CHR ''|'' \<in> set ''*b |'' \<and> length (cellsOf ''*b |'') < 2
      \<and> \<not> (\<exists>u v. ''*b |'' = u @ ''---'' @ v))
   \<and> formatLine ''*b |'' = Text ''*b |''"
proof -
  let ?L = "''x **a** | ''" and ?M = "''*b |''"
  have "\<not> includesStr ?L ''---''" "\<not> includesStr ?M ''---''" by code_simp+
  then have n: "\<not> (\<exists>u v. ?L = u @ ''---'' @ v)" "\<not> (\<exists>u v. ?M = u @ ''---'' @ v)"
    by (simp_all only: includesStr_iff not_False_eq_True)
  have h: "CHR ''|'' \<in> set ?L \<and> length (cellsOf ?L) < 2"
    "CHR ''|'' \<in> set ?M \<and> length (cellsOf ?M) < 2"
    by code_simp+
  from pipe_without_row [of ?L] h(1) n(1)
  have "formatLine ?L =
        (if includesStr ?L ''**'' then Spans (map renderPart (splitBold [] ?L))
         else if startsWith ?L ''*'' \<and> endsWith ?L ''*'' \<and> \<not> startsWith ?L ''**''
           then Italic (slice 1 1 ?L)
         else if trim ?L = [] then Spacer
         else Text ?L)"
    by blast
  also have "\<dots> = Spans [([], ''x ''), (''font-semibold text-blue-300'', ''a''), ([], '' | '')]"
    by code_simp
  finally have c1: "formatLine ?L =
      Spans [([], ''x ''), (''font-semibold text-blue-300'', ''a''), ([], '' | '')]" .
  from pipe_without_row [of ?M] h(2) n(2)
  have "formatLine ?M =
        (if includesStr ?M ''**'' then Spans (map renderPart (splitBold [] ?M))
         else if startsWith ?M ''*'' \<and> endsWith ?M ''*'' \<and> \<not> startsWith ?M ''**''
           then Italic (slice 1 1 ?M)
         else if trim ?M = [] then Spacer
         else Text ?M)"
    by blast
  also have "\<dots> = Text ?M" by code_simp
  finally have c2: "formatLine ?M = Text ?M" .
  from h n c1 c2 show ?thesis by blast
qed

section \<open>The image pre-pass: what is rewritten\<close>

lemma is_ws_lower: "is_ws c \<Longrightarrow> lower c = c"
  by (auto simp: is_ws_def lower_def)

lemma lower_not_ws: "\<not> is_ws (lower c) \<Longrightarrow> \<not> is_ws c"
  using is_ws_lower by fastforce

lemma ci_eq_not_ws:
  assumes "map lower x = e" "list_all (\<lambda>d. \<not> is_ws d) e"
  shows "list_all (\<lambda>c. \<not> is_ws c) x"
  using assms by (induction x arbitrary: e) (auto dest: lower_not_ws)

lemma image_exts_not_ws: "e \<in> set image_exts \<Longrightarrow> list_all (\<lambda>d. \<not> is_ws d) e"
  by (auto simp: image_exts_def is_ws_def)

lemma ci_startsWith_Nil: "ci_startsWith s []"
  by (simp add: ci_startsWith_def)

lemma ci_startsWith_Cons:
  "ci_startsWith s (d # p) \<longleftrightarrow> (\<exists>c cs. s = c # cs \<and> lower c = d \<and> ci_startsWith cs p)"
  by (cases s) (auto simp: ci_startsWith_def)

lemma ext_len_Some:
  "ext_len s = Some k \<longleftrightarrow> (\<exists>e\<in>set image_exts. k = length e \<and> ci_startsWith s e)"
  unfolding ext_len_def image_exts_def
  by (auto simp: ci_startsWith_Cons ci_startsWith_Nil)

lemma ext_len_None:
  "ext_len s = None \<longleftrightarrow> (\<forall>e\<in>set image_exts. \<not> ci_startsWith s e)"
  unfolding ext_len_def image_exts_def
  by (auto simp: ci_startsWith_Cons ci_startsWith_Nil)

lemma scheme_len_Some:
  "scheme_len s = Some k \<longleftrightarrow>
     (k = 7 \<and> ci_startsWith s ''http://'' \<or> k = 8 \<and> ci_startsWith s ''https://'')"
  unfolding scheme_len_def
  by (auto simp: ci_startsWith_Cons ci_startsWith_Nil)

lemma ci_startsWith_take:
  "ci_startsWith (take m s) p \<longleftrightarrow> (p = [] \<or> length p \<le> m \<and> ci_startsWith s p)"
proof (cases "length p \<le> m")
  case True
  then show ?thesis by (auto simp: ci_startsWith_def min_def)
next
  case False
  then have "length (map lower (take (length p) (take m s))) \<noteq> length p" by simp
  then have "map lower (take (length p) (take m s)) \<noteq> p" by metis
  with False show ?thesis by (auto simp: ci_startsWith_def)
qed

lemma scheme_len_take:
  "scheme_len (take m s) = Some k \<longleftrightarrow> scheme_len s = Some k \<and> k \<le> m"
  by (auto simp: scheme_len_Some ci_startsWith_take)


lemma ci_endsWith_Cons: "ci_endsWith r e \<Longrightarrow> ci_endsWith (c # r) e"
  by (auto simp: ci_endsWith_def Suc_diff_le)

lemma ci_endsWith_Cons_shorter:
  "ci_endsWith (c # r) e \<Longrightarrow> length e \<le> length r \<Longrightarrow> ci_endsWith r e"
  by (auto simp: ci_endsWith_def Suc_diff_le)

lemma ci_endsWith_Cons_whole:
  "ci_endsWith (c # r) e \<Longrightarrow> length e = length r \<Longrightarrow> map lower r = e"
  by (auto simp: ci_endsWith_def)

lemma ci_startsWith_length: "ci_startsWith s e \<Longrightarrow> length e \<le> length s"
  by (auto simp: ci_startsWith_def dest!: arg_cong [where f = length])

lemma ext_unique:
  "e \<in> set image_exts \<Longrightarrow> e' \<in> set image_exts \<Longrightarrow> ci_startsWith s e \<Longrightarrow> ci_startsWith s e'
   \<Longrightarrow> e = e'"
  unfolding image_exts_def
  by (auto simp: ci_startsWith_Cons ci_startsWith_Nil)

lemma image_exts_length: "e \<in> set image_exts \<Longrightarrow> 4 \<le> length e \<and> length e \<le> 5"
  by (auto simp: image_exts_def)

lemma nonspace_then_ext_sound: "nonspace_then_ext t = Some n \<Longrightarrow> run_with_ext t n"
proof (induction t arbitrary: n)
  case Nil
  then show ?case by simp
next
  case (Cons c cs)
  from Cons.prems have c: "\<not> is_ws c" by (auto split: if_splits)
  show ?case
  proof (cases "nonspace_then_ext cs")
    case (Some m)
    with Cons.prems c have n: "n = Suc m" by simp
    from Cons.IH [OF Some] have m: "m \<le> length cs" "list_all (\<lambda>c. \<not> is_ws c) (take m cs)"
      and "ends_in_image_ext (take m cs)"
      by (simp_all add: run_with_ext_def)
    then obtain e where e: "e \<in> set image_exts" "length e < m" "ci_endsWith (take m cs) e"
      by (auto simp: ends_in_image_ext_def)
    then have "ends_in_image_ext (c # take m cs)"
      unfolding ends_in_image_ext_def using m(1) by (auto intro!: bexI [of _ e] ci_endsWith_Cons)
    with n m c show ?thesis by (simp add: run_with_ext_def)
  next
    case None
    with Cons.prems c obtain k where k: "ext_len cs = Some k" "n = Suc k"
      by (auto split: option.splits)
    then obtain e where e: "e \<in> set image_exts" "k = length e" "ci_startsWith cs e"
      by (auto simp: ext_len_Some)
    then have len: "k \<le> length cs" by (auto dest: ci_startsWith_length)
    from e have low: "map lower (take k cs) = e" by (simp add: ci_startsWith_def)
    with e(1) have "list_all (\<lambda>c. \<not> is_ws c) (take k cs)"
      by (auto intro: ci_eq_not_ws image_exts_not_ws)
    moreover have "ci_endsWith (c # take k cs) e"
      using low len e(2) by (simp add: ci_endsWith_def)
    then have "ends_in_image_ext (c # take k cs)"
      unfolding ends_in_image_ext_def using e len by (auto intro!: bexI [of _ e])
    ultimately show ?thesis using k len c by (simp add: run_with_ext_def)
  qed
qed

lemma nonspace_then_ext_complete:
  "run_with_ext t m \<Longrightarrow> \<exists>n\<ge>m. nonspace_then_ext t = Some n"
proof (induction t arbitrary: m)
  case Nil
  then show ?case by (simp add: run_with_ext_def ends_in_image_ext_def)
next
  case (Cons c cs)
  from Cons.prems obtain e where e: "e \<in> set image_exts" "length e < length (take m (c # cs))"
      "ci_endsWith (take m (c # cs)) e"
    by (auto simp: run_with_ext_def ends_in_image_ext_def)
  then obtain m' where m: "m = Suc m'" by (cases m) auto
  with Cons.prems have len: "m' \<le> length cs" and c: "\<not> is_ws c"
    and nw: "list_all (\<lambda>c. \<not> is_ws c) (take m' cs)"
    by (simp_all add: run_with_ext_def)
  from e m len have e': "length e \<le> m'" "ci_endsWith (c # take m' cs) e" by simp_all
  show ?case
  proof (cases "length e < m'")
    case True
    with e' len have "ci_endsWith (take m' cs) e"
      by (auto intro: ci_endsWith_Cons_shorter)
    with True e(1) len have "ends_in_image_ext (take m' cs)"
      by (auto simp: ends_in_image_ext_def)
    with len nw have "run_with_ext cs m'" by (simp add: run_with_ext_def)
    from Cons.IH [OF this] obtain n where "m' \<le> n" "nonspace_then_ext cs = Some n" by blast
    with c m show ?thesis by simp
  next
    case False
    with e' have eq: "length e = m'" by simp
    with e' len have "map lower (take m' cs) = e"
      by (auto dest: ci_endsWith_Cons_whole)
    with eq have st: "ci_startsWith cs e" by (simp add: ci_startsWith_def)
    show ?thesis
    proof (cases "nonspace_then_ext cs")
      case None
      from st e(1) obtain k where k: "ext_len cs = Some k"
        using ext_len_None [of cs] by (cases "ext_len cs") auto
      then obtain e2 where "e2 \<in> set image_exts" "k = length e2" "ci_startsWith cs e2"
        by (auto simp: ext_len_Some)
      with st e(1) have "k = length e" by (auto dest: ext_unique)
      with None k c m eq show ?thesis by simp
    next
      case (Some n)
      from nonspace_then_ext_sound [OF Some] obtain e2
        where "e2 \<in> set image_exts" "length e2 < n"
        by (auto simp: run_with_ext_def ends_in_image_ext_def)
      with e(1) eq have "m' \<le> n" by (auto dest!: image_exts_length)
      with Some c m show ?thesis by simp
    qed
  qed
qed

lemma nonspace_then_ext_Some_iff:
  "nonspace_then_ext t = Some n \<longleftrightarrow> run_with_ext t n \<and> (\<forall>m>n. \<not> run_with_ext t m)"
proof
  assume s: "nonspace_then_ext t = Some n"
  show "run_with_ext t n \<and> (\<forall>m>n. \<not> run_with_ext t m)"
  proof (intro conjI allI impI notI)
    show "run_with_ext t n" using s by (rule nonspace_then_ext_sound)
  next
    fix m assume "n < m" "run_with_ext t m"
    with nonspace_then_ext_complete [of t m] s show False by auto
  qed
next
  assume a: "run_with_ext t n \<and> (\<forall>m>n. \<not> run_with_ext t m)"
  then obtain n' where n': "n \<le> n'" "nonspace_then_ext t = Some n'"
    using nonspace_then_ext_complete by blast
  then have "run_with_ext t n'" by (auto dest: nonspace_then_ext_sound)
  with a n' have "n' = n" by (cases "n < n'") auto
  with n' show "nonspace_then_ext t = Some n" by simp
qed

lemma nonspace_then_ext_None_iff:
  "nonspace_then_ext t = None \<longleftrightarrow> (\<forall>m. \<not> run_with_ext t m)"
  using nonspace_then_ext_complete [of t] nonspace_then_ext_sound [of t]
  by (cases "nonspace_then_ext t") fastforce+

lemma image_url_take:
  assumes "m \<le> length s"
  shows "image_url (take m s) \<longleftrightarrow>
         (\<exists>k. scheme_len s = Some k \<and> k \<le> m \<and> run_with_ext (drop k s) (m - k))"
proof (cases "scheme_len (take m s)")
  case None
  then have "\<not> (\<exists>k. scheme_len s = Some k \<and> k \<le> m)"
    using scheme_len_take [of m s] by auto
  with None show ?thesis by (auto simp: image_url_def)
next
  case (Some k)
  then have k: "scheme_len s = Some k" "k \<le> m" by (simp_all add: scheme_len_take)
  have "drop k (take m s) = take (m - k) (drop k s)" by (simp add: drop_take)
  with Some k assms show ?thesis
    by (auto simp: image_url_def run_with_ext_def)
qed

lemma image_url_prefix_iff:
  "image_url_prefix s m \<longleftrightarrow>
     (\<exists>k. scheme_len s = Some k \<and> k \<le> m \<and> m \<le> length s \<and> run_with_ext (drop k s) (m - k))"
  using image_url_take [of m s] by (auto simp: image_url_prefix_def)

lemma scheme_len_bound: "scheme_len s = Some k \<Longrightarrow> k \<le> length s"
  by (auto simp: scheme_len_Some dest: ci_startsWith_length)

lemma match_at_Some_iff:
  "match_at s = Some n \<longleftrightarrow> image_url_prefix s n \<and> (\<forall>m>n. \<not> image_url_prefix s m)"
proof (cases "scheme_len s")
  case None
  then show ?thesis by (simp add: match_at_def image_url_prefix_iff)
next
  case (Some k)
  then have kl: "k \<le> length s" by (rule scheme_len_bound)
  have pre: "image_url_prefix s m \<longleftrightarrow> k \<le> m \<and> run_with_ext (drop k s) (m - k)" for m
    using Some kl by (auto simp: image_url_prefix_iff run_with_ext_def)
  have "match_at s = Some n \<longleftrightarrow> k \<le> n \<and> nonspace_then_ext (drop k s) = Some (n - k)"
    using Some by (auto simp: match_at_def split: option.splits)
  also have "\<dots> \<longleftrightarrow> k \<le> n \<and> run_with_ext (drop k s) (n - k)
       \<and> (\<forall>j>n - k. \<not> run_with_ext (drop k s) j)"
    by (simp add: nonspace_then_ext_Some_iff)
  also have "\<dots> \<longleftrightarrow> image_url_prefix s n \<and> (\<forall>m>n. \<not> image_url_prefix s m)"
  proof (cases "k \<le> n")
    case False
    then show ?thesis by (simp add: pre)
  next
    case True
    have "(\<forall>j>n - k. \<not> run_with_ext (drop k s) j) \<longleftrightarrow> (\<forall>m>n. \<not> image_url_prefix s m)"
    proof
      assume a: "\<forall>j>n - k. \<not> run_with_ext (drop k s) j"
      show "\<forall>m>n. \<not> image_url_prefix s m"
      proof (intro allI impI)
        fix m assume "n < m"
        with True have "n - k < m - k" by simp
        with a show "\<not> image_url_prefix s m" by (simp add: pre)
      qed
    next
      assume b: "\<forall>m>n. \<not> image_url_prefix s m"
      show "\<forall>j>n - k. \<not> run_with_ext (drop k s) j"
      proof (intro allI impI)
        fix j assume "n - k < j"
        then have "n < k + j" by simp
        with b have "\<not> image_url_prefix s (k + j)" by simp
        then show "\<not> run_with_ext (drop k s) j" by (simp add: pre)
      qed
    qed
    with True show ?thesis by (simp add: pre)
  qed
  finally show ?thesis .
qed

lemma match_at_None_iff: "match_at s = None \<longleftrightarrow> (\<forall>m. \<not> image_url_prefix s m)"
proof (cases "scheme_len s")
  case None
  then show ?thesis by (simp add: match_at_def image_url_prefix_iff)
next
  case (Some k)
  then have kl: "k \<le> length s" by (rule scheme_len_bound)
  have pre: "image_url_prefix s m \<longleftrightarrow> k \<le> m \<and> run_with_ext (drop k s) (m - k)" for m
    using Some kl by (auto simp: image_url_prefix_iff run_with_ext_def)
  have "match_at s = None \<longleftrightarrow> nonspace_then_ext (drop k s) = None"
    using Some by (auto simp: match_at_def split: option.splits)
  also have "\<dots> \<longleftrightarrow> (\<forall>j. \<not> run_with_ext (drop k s) j)"
    by (rule nonspace_then_ext_None_iff)
  also have "\<dots> \<longleftrightarrow> (\<forall>m. \<not> image_url_prefix s m)"
  proof
    assume "\<forall>j. \<not> run_with_ext (drop k s) j"
    then show "\<forall>m. \<not> image_url_prefix s m" by (simp add: pre)
  next
    assume b: "\<forall>m. \<not> image_url_prefix s m"
    show "\<forall>j. \<not> run_with_ext (drop k s) j"
    proof
      fix j
      from b have "\<not> image_url_prefix s (k + j)" by blast
      then show "\<not> run_with_ext (drop k s) j" by (simp add: pre)
    qed
  qed
  finally show ?thesis .
qed

lemma ci_startsWith_append_ws:
  assumes "is_ws w" "list_all (\<lambda>d. \<not> is_ws d) p"
  shows "ci_startsWith (u @ w # v) p \<longleftrightarrow> ci_startsWith u p"
  using assms(2)
proof (induction u arbitrary: p)
  case Nil
  with assms(1) show ?case
    by (cases p) (auto simp: ci_startsWith_Cons ci_startsWith_Nil is_ws_lower)
next
  case (Cons c u)
  then show ?case
    by (cases p) (auto simp: ci_startsWith_Cons ci_startsWith_Nil)
qed

lemma scheme_len_append_ws: "is_ws w \<Longrightarrow> scheme_len (u @ w # v) = scheme_len u"
  by (simp add: scheme_len_def ci_startsWith_append_ws is_ws_def)

lemma ext_len_append_ws: "is_ws w \<Longrightarrow> ext_len (u @ w # v) = ext_len u"
  by (simp add: ext_len_def ci_startsWith_append_ws is_ws_def)

lemma nonspace_then_ext_append_ws:
  "is_ws w \<Longrightarrow> nonspace_then_ext (t @ w # v) = nonspace_then_ext t"
  by (induction t) (auto simp: ext_len_append_ws split: option.splits)

lemma match_at_append_ws:
  assumes "is_ws w"
  shows "match_at (u @ w # v) = match_at u"
proof (cases "scheme_len u")
  case None
  with assms show ?thesis by (simp add: match_at_def scheme_len_append_ws)
next
  case (Some k)
  then have "k \<le> length u" by (rule scheme_len_bound)
  with Some assms show ?thesis
    by (simp add: match_at_def scheme_len_append_ws nonspace_then_ext_append_ws)
qed

lemma take_drop_append_le:
  "n \<le> length x \<Longrightarrow> take n (x @ y) = take n x \<and> drop n (x @ y) = drop n x @ y"
  by simp

lemma match_at_ws_head: "is_ws w \<Longrightarrow> match_at (w # v) = None"
  using match_at_append_ws [of w "[]" v] by (simp add: match_at_def scheme_len_def ci_startsWith_def)

lemma formatTextWithImages_match:
  assumes "match_at s = Some n"
  shows "formatTextWithImages s = ''![]('' @ take n s @ '')'' @ formatTextWithImages (drop n s)"
proof (cases s)
  case Nil
  with assms show ?thesis by (auto dest: match_at_bound)
next
  case (Cons c cs)
  with assms show ?thesis by simp
qed

lemma formatTextWithImages_no_match:
  "match_at (c # cs) = None \<Longrightarrow> formatTextWithImages (c # cs) = c # formatTextWithImages cs"
  by simp

lemma formatTextWithImages_ws_head:
  "is_ws w \<Longrightarrow> formatTextWithImages (w # v) = w # formatTextWithImages v"
  by (simp add: match_at_ws_head)

lemma formatTextWithImages_append_ws:
  "is_ws w \<Longrightarrow> formatTextWithImages (u @ w # v) = formatTextWithImages u @ w # formatTextWithImages v"
proof (induction u rule: formatTextWithImages.induct)
  case 1
  then show ?case by (simp add: match_at_ws_head)
next
  case (2 c cs)
  show ?case
  proof (cases "match_at (c # cs)")
    case None
    with 2 show ?thesis
      using match_at_append_ws [of w "c # cs" v] by simp
  next
    case (Some n)
    then have n: "n \<le> length (c # cs)" by (auto dest: match_at_bound)
    from Some 2 have "match_at ((c # cs) @ w # v) = Some n"
      using match_at_append_ws [of w "c # cs" v] by simp
    moreover from n have "take n ((c # cs) @ w # v) = take n (c # cs)"
      and "drop n ((c # cs) @ w # v) = drop n (c # cs) @ w # v"
      using take_drop_append_le [of n "c # cs" "w # v"] by blast+
    ultimately have "formatTextWithImages ((c # cs) @ w # v) =
        ''![]('' @ take n (c # cs) @ '')'' @ formatTextWithImages (drop n (c # cs) @ w # v)"
      using formatTextWithImages_match [of "(c # cs) @ w # v" n] by simp
    also have "formatTextWithImages (drop n (c # cs) @ w # v) =
        formatTextWithImages (drop n (c # cs)) @ w # formatTextWithImages v"
      using "2.IH" Some "2.prems" by simp
    finally show ?thesis using Some by simp
  qed
qed

lemma image_url_whole:
  assumes "image_url u"
  shows "formatTextWithImages u = ''![]('' @ u @ '')''"
proof -
  from assms have "image_url_prefix u (length u)" by (simp add: image_url_prefix_def)
  moreover have "\<forall>m>length u. \<not> image_url_prefix u m" by (simp add: image_url_prefix_def)
  ultimately have m: "match_at u = Some (length u)" by (simp add: match_at_Some_iff)
  then have "u \<noteq> []" by (auto dest: match_at_bound)
  then obtain c cs where "u = c # cs" by (cases u) auto
  with m show ?thesis by simp
qed

lemma formatTextWithImages_ws_append:
  "is_ws w \<Longrightarrow> formatTextWithImages (u @ [w]) = formatTextWithImages u @ [w]"
  using formatTextWithImages_append_ws [of w u "[]"] by simp

lemma bare_image_url_rewritten:
  assumes "bare_image_url_at text i n"
  shows "formatTextWithImages text =
         formatTextWithImages (take i text) @ ''![]('' @ take n (drop i text) @ '')''
           @ formatTextWithImages (drop (i + n) text)"
proof -
  let ?u = "take n (drop i text)"
  from assms have len: "i + n \<le> length text" and url: "image_url ?u"
    and before: "i = 0 \<or> is_ws (text ! (i - 1))"
    and after: "i + n = length text \<or> is_ws (text ! (i + n))"
    by (simp_all add: bare_image_url_at_def)
  have split: "text = take i text @ ?u @ drop (i + n) text"
    by (metis add.commute append_take_drop_id drop_drop)
  have tail: "formatTextWithImages (?u @ drop (i + n) text) =
      ''![]('' @ ?u @ '')'' @ formatTextWithImages (drop (i + n) text)"
  proof (cases "i + n = length text")
    case True
    with url show ?thesis by (simp add: image_url_whole)
  next
    case False
    with after len have w: "is_ws (text ! (i + n))" and "i + n < length text" by simp_all
    then have "drop (i + n) text = text ! (i + n) # drop (Suc (i + n)) text"
      by (simp add: Cons_nth_drop_Suc)
    with w url show ?thesis
      using formatTextWithImages_append_ws [of "text ! (i + n)" ?u "drop (Suc (i + n)) text"]
      by (simp add: image_url_whole formatTextWithImages_ws_head del: formatTextWithImages.simps(2))
  qed
  have "formatTextWithImages (take i text @ ?u @ drop (i + n) text) =
      formatTextWithImages (take i text) @ formatTextWithImages (?u @ drop (i + n) text)"
  proof (cases "i = 0")
    case True
    then show ?thesis by simp
  next
    case False
    with before len have w: "is_ws (text ! (i - 1))" and i: "i - 1 < length text" by simp_all
    from False i have "take i text = take (i - 1) text @ [text ! (i - 1)]"
      by (metis Suc_pred' neq0_conv take_Suc_conv_app_nth)
    then have "take i text @ ?u @ drop (i + n) text =
        take (i - 1) text @ text ! (i - 1) # (?u @ drop (i + n) text)" by simp
    moreover have "take i text = take (i - 1) text @ text ! (i - 1) # []" by fact
    ultimately show ?thesis
      using formatTextWithImages_append_ws [OF w, of "take (i - 1) text"]
      by (simp del: formatTextWithImages.simps(2))
  qed
  moreover from split have "formatTextWithImages text =
      formatTextWithImages (take i text @ ?u @ drop (i + n) text)"
    by (rule arg_cong)
  ultimately show ?thesis using tail by (simp del: formatTextWithImages.simps(2))
qed

text \<open>
  Claim C8, as the code has it. The pre-pass rewrites exactly the matches of the
  pattern, found from left to right: where no prefix of the remaining text is an
  image URL the code unit is copied, and where one is, the longest such prefix \<open>m\<close>
  becomes \<open>![](m)\<close> and the scan goes on behind it. A white space separates the
  text into parts that are rewritten independently, so the pass over the whole text
  is the pass over each line. Every bare image URL is rewritten, and so are matches
  that are not bare.
\<close>

theorem image_prepass_rewrites:
  "formatTextWithImages [] = []
   \<and> ((\<forall>m. \<not> image_url_prefix (c # cs) m) \<longrightarrow>
        formatTextWithImages (c # cs) = c # formatTextWithImages cs)
   \<and> (image_url_prefix s n \<and> (\<forall>m>n. \<not> image_url_prefix s m) \<longrightarrow>
        formatTextWithImages s = ''![]('' @ take n s @ '')'' @ formatTextWithImages (drop n s))
   \<and> (is_ws w \<longrightarrow>
        formatTextWithImages (u @ w # v) = formatTextWithImages u @ w # formatTextWithImages v)
   \<and> (bare_image_url_at text i k \<longrightarrow>
        formatTextWithImages text =
          formatTextWithImages (take i text) @ ''![]('' @ take k (drop i text) @ '')''
            @ formatTextWithImages (drop (i + k) text))"
proof (intro conjI impI)
  show "formatTextWithImages [] = []" by simp
next
  assume "\<forall>m. \<not> image_url_prefix (c # cs) m"
  then have "match_at (c # cs) = None" using match_at_None_iff [of "c # cs"] by blast
  then show "formatTextWithImages (c # cs) = c # formatTextWithImages cs"
    by (rule formatTextWithImages_no_match)
next
  assume "image_url_prefix s n \<and> (\<forall>m>n. \<not> image_url_prefix s m)"
  then have "match_at s = Some n" using match_at_Some_iff [of s n] by blast
  then show "formatTextWithImages s = ''![]('' @ take n s @ '')'' @ formatTextWithImages (drop n s)"
    by (rule formatTextWithImages_match)
next
  assume "is_ws w"
  then show "formatTextWithImages (u @ w # v) = formatTextWithImages u @ w # formatTextWithImages v"
    by (rule formatTextWithImages_append_ws)
next
  assume "bare_image_url_at text i k"
  then show "formatTextWithImages text =
          formatTextWithImages (take i text) @ ''![]('' @ take k (drop i text) @ '')''
            @ formatTextWithImages (drop (i + k) text)"
    by (rule bare_image_url_rewritten)
qed

theorem image_prepass_rewrites_witness:
  "\<not> (\<exists>m. image_url_prefix ''ab'' m)
   \<and> formatTextWithImages ''ab'' = CHR ''a'' # formatTextWithImages ''b''
   \<and> image_url_prefix ''http://a.png?x'' 12 \<and> \<not> (\<exists>m>12. image_url_prefix ''http://a.png?x'' m)
   \<and> formatTextWithImages ''http://a.png?x'' = ''![](http://a.png)'' @ formatTextWithImages ''?x''
   \<and> is_ws CHR 0x0A
   \<and> formatTextWithImages (''http://a.gif'' @ CHR 0x0A # ''b'')
       = formatTextWithImages ''http://a.gif'' @ CHR 0x0A # formatTextWithImages ''b''
   \<and> bare_image_url_at ''a http://a/b.png'' 2 14
   \<and> formatTextWithImages ''a http://a/b.png''
       = formatTextWithImages ''a '' @ ''![](http://a/b.png)'' @ formatTextWithImages ''''"
proof -
  have "match_at ''ab'' = None" by code_simp
  then have h1: "\<forall>m. \<not> image_url_prefix (CHR ''a'' # ''b'') m"
    using match_at_None_iff [of "''ab''"] by blast
  have "match_at ''http://a.png?x'' = Some 12" by code_simp
  then have h2: "image_url_prefix ''http://a.png?x'' 12
      \<and> (\<forall>m>12. \<not> image_url_prefix ''http://a.png?x'' m)"
    using match_at_Some_iff [of "''http://a.png?x''" 12] by blast
  have h3: "is_ws CHR 0x0A" by code_simp
  have h4: "bare_image_url_at ''a http://a/b.png'' 2 14" by code_simp
  have t: "take 12 ''http://a.png?x'' = ''http://a.png''" "drop 12 ''http://a.png?x'' = ''?x''"
    "take 2 ''a http://a/b.png'' = ''a ''" "take 14 (drop 2 ''a http://a/b.png'') = ''http://a/b.png''"
    "drop (2 + 14) ''a http://a/b.png'' = ''''"
    by code_simp+
  note inst = image_prepass_rewrites [of "CHR ''a''" "''b''" "''http://a.png?x''" 12 "CHR 0x0A"
      "''http://a.gif''" "''b''" "''a http://a/b.png''" 2 14]
  from inst h1 have c1: "formatTextWithImages ''ab'' = CHR ''a'' # formatTextWithImages ''b''"
    by blast
  from inst h2 have "formatTextWithImages ''http://a.png?x'' =
      ''![]('' @ take 12 ''http://a.png?x'' @ '')'' @ formatTextWithImages (drop 12 ''http://a.png?x'')"
    by blast
  with t have c2: "formatTextWithImages ''http://a.png?x'' = ''![](http://a.png)'' @ formatTextWithImages ''?x''"
    by simp
  from inst h3 have c3: "formatTextWithImages (''http://a.gif'' @ CHR 0x0A # ''b'')
       = formatTextWithImages ''http://a.gif'' @ CHR 0x0A # formatTextWithImages ''b''"
    by blast
  from inst h4 have "formatTextWithImages ''a http://a/b.png'' =
      formatTextWithImages (take 2 ''a http://a/b.png'') @ ''![]('' @ take 14 (drop 2 ''a http://a/b.png'') @ '')''
            @ formatTextWithImages (drop (2 + 14) ''a http://a/b.png'')"
    by blast
  with t have c4: "formatTextWithImages ''a http://a/b.png''
       = formatTextWithImages ''a '' @ ''![](http://a/b.png)'' @ formatTextWithImages ''''"
    by (simp only: append_Cons append_Nil)
  from h1 have h1': "\<not> (\<exists>m. image_url_prefix ''ab'' m)" by blast
  from h2 have h2': "image_url_prefix ''http://a.png?x'' 12" "\<not> (\<exists>m>12. image_url_prefix ''http://a.png?x'' m)"
    by blast+
  from h1' c1 h2' c2 h3 c3 h4 c4 show ?thesis by blast
qed

text \<open>
  Claim C8, as stated, fails in the direction "only if": the URL of an image that is
  already written as markup is wrapped once more, and a URL that goes on after the
  extension is rewritten up to the extension. Neither stands bare in its text.
\<close>

theorem image_prepass_rewrites_non_bare:
  "formatTextWithImages ''![x](http://a/b.png)'' = ''![x](![](http://a/b.png))''
   \<and> take 14 (drop 5 ''![x](http://a/b.png)'') = ''http://a/b.png''
   \<and> \<not> bare_image_url_at ''![x](http://a/b.png)'' 5 14
   \<and> formatTextWithImages ''http://a/b.png?w=1'' = ''![](http://a/b.png)?w=1''
   \<and> \<not> bare_image_url_at ''http://a/b.png?w=1'' 0 14"
  by code_simp

section \<open>Sending a message\<close>

lemma ChatApp_saveEffect_frame:
  "messages (ChatApp_saveEffect e w) = messages w"
  "inputMessage (ChatApp_saveEffect e w) = inputMessage w"
  "isLoading (ChatApp_saveEffect e w) = isLoading w"
  "requests (ChatApp_saveEffect e w) = requests w"
  by (simp_all add: ChatApp_saveEffect_def Let_def split: sum.splits)

lemma ChatApp_setMessages_frame:
  "messages (ChatApp_setMessages e f w) = f (messages w)"
  "inputMessage (ChatApp_setMessages e f w) = inputMessage w"
  "isLoading (ChatApp_setMessages e f w) = isLoading w"
  "requests (ChatApp_setMessages e f w) = requests w"
  by (simp_all add: ChatApp_setMessages_def ChatApp_saveEffect_frame)

lemma Widget_saveEffect_frame:
  "messages (Widget_saveEffect e w) = messages w"
  "inputMessage (Widget_saveEffect e w) = inputMessage w"
  "isLoading (Widget_saveEffect e w) = isLoading w"
  "requests (Widget_saveEffect e w) = requests w"
  "userSessionId (Widget_saveEffect e w) = userSessionId w"
  by (simp_all add: Widget_saveEffect_def)

lemma Widget_setMessages_frame:
  "messages (Widget_setMessages e f w) = f (messages w)"
  "inputMessage (Widget_setMessages e f w) = inputMessage w"
  "isLoading (Widget_setMessages e f w) = isLoading w"
  "requests (Widget_setMessages e f w) = requests w"
  "userSessionId (Widget_setMessages e f w) = userSessionId w"
  by (simp_all add: Widget_setMessages_def Widget_saveEffect_frame)

lemma ChatApp_dispatch_Some:
  assumes "trim (inputMessage w) \<noteq> []" "\<not> isLoading w"
  shows "\<exists>w1. ChatApp_dispatch e c w = Some w1
     \<and> messages w1 = messages w @ [\<lparr>msg_id = now1 c, msg_text = JString (inputMessage w),
          sender = User, timestamp = stamp1 c, requestId = None\<rparr>]
     \<and> isLoading w1 \<and> inputMessage w1 = []
     \<and> length (requests w1) = Suc (length (requests w))
     \<and> prompt (last (requests w1)) = inputMessage w"
  using assms by (simp add: ChatApp_dispatch_def Let_def ChatApp_setMessages_frame)

lemma ChatApp_settle_Inr:
  "\<exists>w2. ChatApp_settle e c w = Inr w2
     \<and> messages w2 = messages w @ [\<lparr>msg_id = now2 c + 1, msg_text = settledText (fetched c),
          sender = Bot, timestamp = stamp2 c, requestId = None\<rparr>]
     \<and> \<not> isLoading w2 \<and> requests w2 = requests w \<and> inputMessage w2 = inputMessage w"
  by (cases "replyText (fetched c)")
     (simp_all add: ChatApp_settle_def try_catch_finally_def settledText_def ChatApp_setMessages_frame)

lemma Widget_dispatch_Some:
  assumes "trim (inputMessage w) \<noteq> []" "\<not> isLoading w"
  shows "\<exists>w1. Widget_dispatch e c w = Some w1
     \<and> messages w1 = messages w @ [\<lparr>msg_id = now1 c, msg_text = JString (inputMessage w),
          sender = User, timestamp = stamp1 c, requestId = Some (uniqueId c)\<rparr>]
     \<and> isLoading w1 \<and> inputMessage w1 = []
     \<and> length (requests w1) = Suc (length (requests w))
     \<and> prompt (last (requests w1)) = inputMessage w"
  using assms by (simp add: Widget_dispatch_def Let_def Widget_setMessages_frame)

lemma Widget_settle_Inr:
  "\<exists>w2. Widget_settle e c w = Inr w2
     \<and> messages w2 = messages w @ [\<lparr>msg_id = now2 c + 1, msg_text = settledText (fetched c),
          sender = Bot, timestamp = stamp2 c, requestId = Some (uniqueId c)\<rparr>]
     \<and> \<not> isLoading w2 \<and> requests w2 = requests w \<and> inputMessage w2 = inputMessage w"
  by (cases "replyText (fetched c)")
     (simp_all add: Widget_settle_def try_catch_finally_def settledText_def Widget_setMessages_frame)

lemma ChatApp_sendMessage_Inr:
  assumes "trim (inputMessage w) \<noteq> []" "\<not> isLoading w"
  shows "\<exists>w1 w2. ChatApp_dispatch e c w = Some w1 \<and> ChatApp_sendMessage e c w = Inr w2
     \<and> messages w1 = messages w @ [\<lparr>msg_id = now1 c, msg_text = JString (inputMessage w),
          sender = User, timestamp = stamp1 c, requestId = None\<rparr>]
     \<and> isLoading w1 \<and> length (requests w1) = Suc (length (requests w))
     \<and> messages w2 = messages w1 @ [\<lparr>msg_id = now2 c + 1, msg_text = settledText (fetched c),
          sender = Bot, timestamp = stamp2 c, requestId = None\<rparr>]
     \<and> \<not> isLoading w2 \<and> requests w2 = requests w1"
proof -
  from ChatApp_dispatch_Some [OF assms, of e c] obtain w1 where w1: "ChatApp_dispatch e c w = Some w1"
    "messages w1 = messages w @ [\<lparr>msg_id = now1 c, msg_text = JString (inputMessage w),
          sender = User, timestamp = stamp1 c, requestId = None\<rparr>]"
    "isLoading w1" "length (requests w1) = Suc (length (requests w))"
    by blast
  from ChatApp_settle_Inr [of e c w1] obtain w2 where w2: "ChatApp_settle e c w1 = Inr w2"
    "messages w2 = messages w1 @ [\<lparr>msg_id = now2 c + 1, msg_text = settledText (fetched c),
          sender = Bot, timestamp = stamp2 c, requestId = None\<rparr>]"
    "\<not> isLoading w2" "requests w2 = requests w1"
    by blast
  from w1(1) w2(1) have "ChatApp_sendMessage e c w = Inr w2" by (simp add: ChatApp_sendMessage_def)
  with w1 w2 show ?thesis by blast
qed

lemma Widget_sendMessage_Inr:
  assumes "trim (inputMessage w) \<noteq> []" "\<not> isLoading w"
  shows "\<exists>w1 w2. Widget_dispatch e c w = Some w1 \<and> Widget_sendMessage e c w = Inr w2
     \<and> messages w1 = messages w @ [\<lparr>msg_id = now1 c, msg_text = JString (inputMessage w),
          sender = User, timestamp = stamp1 c, requestId = Some (uniqueId c)\<rparr>]
     \<and> isLoading w1 \<and> length (requests w1) = Suc (length (requests w))
     \<and> messages w2 = messages w1 @ [\<lparr>msg_id = now2 c + 1, msg_text = settledText (fetched c),
          sender = Bot, timestamp = stamp2 c, requestId = Some (uniqueId c)\<rparr>]
     \<and> \<not> isLoading w2 \<and> requests w2 = requests w1"
proof -
  from Widget_dispatch_Some [OF assms, of e c] obtain w1 where w1: "Widget_dispatch e c w = Some w1"
    "messages w1 = messages w @ [\<lparr>msg_id = now1 c, msg_text = JString (inputMessage w),
          sender = User, timestamp = stamp1 c, requestId = Some (uniqueId c)\<rparr>]"
    "isLoading w1" "length (requests w1) = Suc (length (requests w))"
    by blast
  from Widget_settle_Inr [of e c w1] obtain w2 where w2: "Widget_settle e c w1 = Inr w2"
    "messages w2 = messages w1 @ [\<lparr>msg_id = now2 c + 1, msg_text = settledText (fetched c),
          sender = Bot, timestamp = stamp2 c, requestId = Some (uniqueId c)\<rparr>]"
    "\<not> isLoading w2" "requests w2 = requests w1"
    by blast
  from w1(1) w2(1) have "Widget_sendMessage e c w = Inr w2" by (simp add: Widget_sendMessage_def)
  with w1 w2 show ?thesis by blast
qed

text \<open>
  Claim C1. In both components, a call of \<open>sendMessage\<close> with an input that is not
  blank, made while \<open>isLoading\<close> is false, appends one user message before the
  request is awaited and, whatever the request's outcome, one bot message after it;
  the call returns normally with \<open>isLoading\<close> false.
\<close>

theorem send_appends_user_then_bot:
  "(trim (inputMessage w) \<noteq> [] \<and> \<not> isLoading w \<longrightarrow>
      (\<exists>u b w1 w2. ChatApp_dispatch e c w = Some w1 \<and> messages w1 = messages w @ [u]
          \<and> sender u = User \<and> msg_text u = JString (inputMessage w)
          \<and> ChatApp_sendMessage e c w = Inr w2 \<and> messages w2 = messages w @ [u, b]
          \<and> sender b = Bot \<and> \<not> isLoading w2))
   \<and> (trim (inputMessage v) \<noteq> [] \<and> \<not> isLoading v \<longrightarrow>
      (\<exists>u b v1 v2. Widget_dispatch e c v = Some v1 \<and> messages v1 = messages v @ [u]
          \<and> sender u = User \<and> msg_text u = JString (inputMessage v)
          \<and> Widget_sendMessage e c v = Inr v2 \<and> messages v2 = messages v @ [u, b]
          \<and> sender b = Bot \<and> \<not> isLoading v2))"
proof (intro conjI impI)
  assume "trim (inputMessage w) \<noteq> [] \<and> \<not> isLoading w"
  then obtain w1 w2 where "ChatApp_dispatch e c w = Some w1" "ChatApp_sendMessage e c w = Inr w2"
    "messages w1 = messages w @ [\<lparr>msg_id = now1 c, msg_text = JString (inputMessage w),
          sender = User, timestamp = stamp1 c, requestId = None\<rparr>]"
    "messages w2 = messages w1 @ [\<lparr>msg_id = now2 c + 1, msg_text = settledText (fetched c),
          sender = Bot, timestamp = stamp2 c, requestId = None\<rparr>]"
    "\<not> isLoading w2"
    using ChatApp_sendMessage_Inr [of w e c] by blast
  then show "\<exists>u b w1 w2. ChatApp_dispatch e c w = Some w1 \<and> messages w1 = messages w @ [u]
          \<and> sender u = User \<and> msg_text u = JString (inputMessage w)
          \<and> ChatApp_sendMessage e c w = Inr w2 \<and> messages w2 = messages w @ [u, b]
          \<and> sender b = Bot \<and> \<not> isLoading w2"
    by (intro exI [of _ "\<lparr>msg_id = now1 c, msg_text = JString (inputMessage w),
          sender = User, timestamp = stamp1 c, requestId = None\<rparr>"]
        exI [of _ "\<lparr>msg_id = now2 c + 1, msg_text = settledText (fetched c),
          sender = Bot, timestamp = stamp2 c, requestId = None\<rparr>"] exI [of _ w1] exI [of _ w2])
       simp
next
  assume "trim (inputMessage v) \<noteq> [] \<and> \<not> isLoading v"
  then obtain v1 v2 where "Widget_dispatch e c v = Some v1" "Widget_sendMessage e c v = Inr v2"
    "messages v1 = messages v @ [\<lparr>msg_id = now1 c, msg_text = JString (inputMessage v),
          sender = User, timestamp = stamp1 c, requestId = Some (uniqueId c)\<rparr>]"
    "messages v2 = messages v1 @ [\<lparr>msg_id = now2 c + 1, msg_text = settledText (fetched c),
          sender = Bot, timestamp = stamp2 c, requestId = Some (uniqueId c)\<rparr>]"
    "\<not> isLoading v2"
    using Widget_sendMessage_Inr [of v e c] by blast
  then show "\<exists>u b v1 v2. Widget_dispatch e c v = Some v1 \<and> messages v1 = messages v @ [u]
          \<and> sender u = User \<and> msg_text u = JString (inputMessage v)
          \<and> Widget_sendMessage e c v = Inr v2 \<and> messages v2 = messages v @ [u, b]
          \<and> sender b = Bot \<and> \<not> isLoading v2"
    by (intro exI [of _ "\<lparr>msg_id = now1 c, msg_text = JString (inputMessage v),
          sender = User, timestamp = stamp1 c, requestId = Some (uniqueId c)\<rparr>"]
        exI [of _ "\<lparr>msg_id = now2 c + 1, msg_text = settledText (fetched c),
          sender = Bot, timestamp = stamp2 c, requestId = Some (uniqueId c)\<rparr>"] exI [of _ v1] exI [of _ v2])
       simp
qed

lemma example_inputs:
  "trim (inputMessage (example_chat ''ping'')) \<noteq> []" "\<not> isLoading (example_chat ''ping'')"
  "trim (inputMessage (example_widget ''ping'')) \<noteq> []" "\<not> isLoading (example_widget ''ping'')"
  by (simp_all add: example_chat_def example_widget_def trim_def is_ws_def)

theorem send_appends_user_then_bot_witness:
  "(trim (inputMessage (example_chat ''ping'')) \<noteq> [] \<and> \<not> isLoading (example_chat ''ping''))
   \<and> (\<exists>u b w1 w2. ChatApp_dispatch example_env (example_call 1000 Rejected 1005) (example_chat ''ping'') = Some w1
          \<and> messages w1 = [u] \<and> sender u = User \<and> msg_text u = JString ''ping''
          \<and> ChatApp_sendMessage example_env (example_call 1000 Rejected 1005) (example_chat ''ping'') = Inr w2
          \<and> messages w2 = [u, b] \<and> sender b = Bot \<and> \<not> isLoading w2)
   \<and> (trim (inputMessage (example_widget ''ping'')) \<noteq> [] \<and> \<not> isLoading (example_widget ''ping''))
   \<and> (\<exists>u b v1 v2. Widget_dispatch example_env (example_call 1000 Rejected 1005) (example_widget ''ping'') = Some v1
          \<and> messages v1 = [u] \<and> sender u = User \<and> msg_text u = JString ''ping''
          \<and> Widget_sendMessage example_env (example_call 1000 Rejected 1005) (example_widget ''ping'') = Inr v2
          \<and> messages v2 = [u, b] \<and> sender b = Bot \<and> \<not> isLoading v2)"
proof -
  have m: "messages (example_chat ''ping'') = []" "inputMessage (example_chat ''ping'') = ''ping''"
    "messages (example_widget ''ping'') = []" "inputMessage (example_widget ''ping'') = ''ping''"
    by (simp_all add: example_chat_def example_widget_def)
  from send_appends_user_then_bot [of "example_chat ''ping''" example_env
      "example_call 1000 Rejected 1005" "example_widget ''ping''"] example_inputs
  show ?thesis unfolding m by simp
qed

text \<open>
  Claim C2. In both components, a call of \<open>sendMessage\<close> whose input is blank, or
  that is made while \<open>isLoading\<close> is true, returns at its guard: nothing is
  dispatched and the whole state (history, \<open>isLoading\<close>, the requests issued, the
  store) is as before.
\<close>

theorem send_ignored:
  "(trim (inputMessage w) = [] \<or> isLoading w \<longrightarrow>
      ChatApp_dispatch e c w = None \<and> ChatApp_sendMessage e c w = Inr w)
   \<and> (trim (inputMessage v) = [] \<or> isLoading v \<longrightarrow>
      Widget_dispatch e c v = None \<and> Widget_sendMessage e c v = Inr v)"
  by (auto simp: ChatApp_dispatch_def ChatApp_sendMessage_def Widget_dispatch_def
      Widget_sendMessage_def)

theorem send_ignored_witness:
  "(trim (inputMessage (example_chat '' '')) = []
      \<and> ChatApp_sendMessage example_env (example_call 1000 Rejected 1005) (example_chat '' '')
          = Inr (example_chat '' ''))
   \<and> (isLoading ((example_widget ''ping'')\<lparr>isLoading := True\<rparr>)
      \<and> Widget_sendMessage example_env (example_call 1000 Rejected 1005)
            ((example_widget ''ping'')\<lparr>isLoading := True\<rparr>)
          = Inr ((example_widget ''ping'')\<lparr>isLoading := True\<rparr>))"
proof -
  have h1: "trim (inputMessage (example_chat '' '')) = []"
    by (simp add: example_chat_def trim_def is_ws_def)
  have h2: "isLoading ((example_widget ''ping'')\<lparr>isLoading := True\<rparr>)" by simp
  from send_ignored [of "example_chat '' ''" example_env "example_call 1000 Rejected 1005"
      "(example_widget ''ping'')\<lparr>isLoading := True\<rparr>"] h1 h2
  show ?thesis by blast
qed

lemma settledText_failed:
  "r = Rejected \<or> (\<exists>body. r = Responded False body) \<or> r = Responded True Malformed
   \<Longrightarrow> settledText r = JString errorText"
  by (auto simp: settledText_def replyText_def)

text \<open>
  Claim C3. In both components, when the request of a submitted message fails (the
  fetch rejects, the status is not ok, or the body is not JSON), the call returns
  normally, the last message of the history is the bot's fixed error message, and
  \<open>isLoading\<close> is false.
\<close>

theorem failed_request_error_message:
  "(trim (inputMessage w) \<noteq> [] \<and> \<not> isLoading w
      \<and> (fetched c = Rejected \<or> (\<exists>body. fetched c = Responded False body)
          \<or> fetched c = Responded True Malformed) \<longrightarrow>
      (\<exists>w2. ChatApp_sendMessage e c w = Inr w2 \<and> messages w2 \<noteq> []
          \<and> sender (last (messages w2)) = Bot
          \<and> msg_text (last (messages w2)) =
              JString ''Sorry, I encountered an error while processing your request. Please try again.''
          \<and> \<not> isLoading w2))
   \<and> (trim (inputMessage v) \<noteq> [] \<and> \<not> isLoading v
      \<and> (fetched c = Rejected \<or> (\<exists>body. fetched c = Responded False body)
          \<or> fetched c = Responded True Malformed) \<longrightarrow>
      (\<exists>v2. Widget_sendMessage e c v = Inr v2 \<and> messages v2 \<noteq> []
          \<and> sender (last (messages v2)) = Bot
          \<and> msg_text (last (messages v2)) =
              JString ''Sorry, I encountered an error while processing your request. Please try again.''
          \<and> \<not> isLoading v2))"
proof (intro conjI impI)
  assume a: "trim (inputMessage w) \<noteq> [] \<and> \<not> isLoading w
      \<and> (fetched c = Rejected \<or> (\<exists>body. fetched c = Responded False body)
          \<or> fetched c = Responded True Malformed)"
  then have t: "settledText (fetched c) = JString errorText" by (intro settledText_failed) blast
  from a have p: "trim (inputMessage w) \<noteq> []" "\<not> isLoading w" by simp_all
  from ChatApp_sendMessage_Inr [OF p, of e c] obtain w1 :: chat and w2 where "ChatApp_sendMessage e c w = Inr w2"
    "messages w2 = messages w1 @ [\<lparr>msg_id = now2 c + 1, msg_text = settledText (fetched c),
          sender = Bot, timestamp = stamp2 c, requestId = None\<rparr>]"
    "\<not> isLoading w2"
    by blast
  with t show "\<exists>w2. ChatApp_sendMessage e c w = Inr w2 \<and> messages w2 \<noteq> []
          \<and> sender (last (messages w2)) = Bot
          \<and> msg_text (last (messages w2)) =
              JString ''Sorry, I encountered an error while processing your request. Please try again.''
          \<and> \<not> isLoading w2"
    by (simp add: errorText_def)
next
  assume a: "trim (inputMessage v) \<noteq> [] \<and> \<not> isLoading v
      \<and> (fetched c = Rejected \<or> (\<exists>body. fetched c = Responded False body)
          \<or> fetched c = Responded True Malformed)"
  then have t: "settledText (fetched c) = JString errorText" by (intro settledText_failed) blast
  from a have p: "trim (inputMessage v) \<noteq> []" "\<not> isLoading v" by simp_all
  from Widget_sendMessage_Inr [OF p, of e c] obtain v1 :: widget and v2 where "Widget_sendMessage e c v = Inr v2"
    "messages v2 = messages v1 @ [\<lparr>msg_id = now2 c + 1, msg_text = settledText (fetched c),
          sender = Bot, timestamp = stamp2 c, requestId = Some (uniqueId c)\<rparr>]"
    "\<not> isLoading v2"
    by blast
  with t show "\<exists>v2. Widget_sendMessage e c v = Inr v2 \<and> messages v2 \<noteq> []
          \<and> sender (last (messages v2)) = Bot
          \<and> msg_text (last (messages v2)) =
              JString ''Sorry, I encountered an error while processing your request. Please try again.''
          \<and> \<not> isLoading v2"
    by (simp add: errorText_def)
qed

theorem failed_request_error_message_witness:
  "(trim (inputMessage (example_chat ''ping'')) \<noteq> [] \<and> \<not> isLoading (example_chat ''ping'')
      \<and> fetched (example_call 1000 Rejected 1005) = Rejected)
   \<and> (\<exists>w2. ChatApp_sendMessage example_env (example_call 1000 Rejected 1005) (example_chat ''ping'') = Inr w2
          \<and> messages w2 \<noteq> [] \<and> sender (last (messages w2)) = Bot
          \<and> msg_text (last (messages w2)) =
              JString ''Sorry, I encountered an error while processing your request. Please try again.''
          \<and> \<not> isLoading w2)
   \<and> (trim (inputMessage (example_widget ''ping'')) \<noteq> [] \<and> \<not> isLoading (example_widget ''ping''))
   \<and> (\<exists>v2. Widget_sendMessage example_env (example_call 1000 Rejected 1005) (example_widget ''ping'') = Inr v2
          \<and> messages v2 \<noteq> [] \<and> sender (last (messages v2)) = Bot
          \<and> msg_text (last (messages v2)) =
              JString ''Sorry, I encountered an error while processing your request. Please try again.''
          \<and> \<not> isLoading v2)"
proof -
  have f: "fetched (example_call 1000 Rejected 1005) = Rejected" by (simp add: example_call_def)
  from failed_request_error_message [of "example_chat ''ping''" "example_call 1000 Rejected 1005"
      example_env "example_widget ''ping''"] example_inputs f
  show ?thesis by blast
qed

section \<open>The text of the reply\<close>

lemma settledText_parsed:
  "settledText (Responded True (Parsed data)) =
     (case output_of data of
        Inl error \<Rightarrow> JString errorText
      | Inr out \<Rightarrow> js_or out (JString fallbackText))"
  by (simp add: settledText_def replyText_def split: sum.splits)

lemma settledText_output:
  "data = JObject kvs \<Longrightarrow> map_of kvs ''output'' = Some (JString s) \<Longrightarrow> s \<noteq> []
   \<Longrightarrow> settledText (Responded True (Parsed data)) = JString s"
  by (simp add: settledText_parsed output_of_def js_or_def truthy_def)

lemma settledText_no_output:
  assumes "data \<noteq> JNull" "data \<noteq> JUndefined"
    and "\<forall>kvs. data = JObject kvs \<longrightarrow>
           map_of kvs ''output'' = None \<or> map_of kvs ''output'' = Some (JString [])"
  shows "settledText (Responded True (Parsed data)) = JString fallbackText"
  using assms
  by (cases data) (auto simp: settledText_parsed output_of_def js_or_def truthy_def)

lemma settledText_null: "settledText (Responded True (Parsed JNull)) = JString errorText"
  by (simp add: settledText_parsed output_of_def)

text \<open>
  Claim C4, as the code has it. In both components, when the request of a submitted
  message succeeds with a JSON body: an \<open>output\<close> that is a non-empty string is the
  text of the bot's message; if the body is not \<open>null\<close> and has no \<open>output\<close>, or
  the empty string as \<open>output\<close>, the text is the fixed fallback; if the body is
  \<open>null\<close>, reading \<open>output\<close> throws, and the text is the fixed error message.
\<close>

theorem reply_text_of_success:
  "(trim (inputMessage w) \<noteq> [] \<and> \<not> isLoading w \<and> fetched c = Responded True (Parsed data) \<longrightarrow>
      (\<exists>w2. ChatApp_sendMessage e c w = Inr w2 \<and> messages w2 \<noteq> []
          \<and> sender (last (messages w2)) = Bot
          \<and> (\<forall>kvs s. data = JObject kvs \<and> map_of kvs ''output'' = Some (JString s) \<and> s \<noteq> [] \<longrightarrow>
                msg_text (last (messages w2)) = JString s)
          \<and> (data \<noteq> JNull \<and> data \<noteq> JUndefined
              \<and> (\<forall>kvs. data = JObject kvs \<longrightarrow>
                    map_of kvs ''output'' = None \<or> map_of kvs ''output'' = Some (JString [])) \<longrightarrow>
                msg_text (last (messages w2)) = JString ''Sorry, I could not process your request.'')
          \<and> (data = JNull \<longrightarrow>
                msg_text (last (messages w2)) =
                  JString ''Sorry, I encountered an error while processing your request. Please try again.'')))
   \<and> (trim (inputMessage v) \<noteq> [] \<and> \<not> isLoading v \<and> fetched c = Responded True (Parsed data) \<longrightarrow>
      (\<exists>v2. Widget_sendMessage e c v = Inr v2 \<and> messages v2 \<noteq> []
          \<and> sender (last (messages v2)) = Bot
          \<and> (\<forall>kvs s. data = JObject kvs \<and> map_of kvs ''output'' = Some (JString s) \<and> s \<noteq> [] \<longrightarrow>
                msg_text (last (messages v2)) = JString s)
          \<and> (data \<noteq> JNull \<and> data \<noteq> JUndefined
              \<and> (\<forall>kvs. data = JObject kvs \<longrightarrow>
                    map_of kvs ''output'' = None \<or> map_of kvs ''output'' = Some (JString [])) \<longrightarrow>
                msg_text (last (messages v2)) = JString ''Sorry, I could not process your request.'')
          \<and> (data = JNull \<longrightarrow>
                msg_text (last (messages v2)) =
                  JString ''Sorry, I encountered an error while processing your request. Please try again.'')))"
proof (intro conjI impI)
  assume a: "trim (inputMessage w) \<noteq> [] \<and> \<not> isLoading w \<and> fetched c = Responded True (Parsed data)"
  then have p: "trim (inputMessage w) \<noteq> []" "\<not> isLoading w" by simp_all
  from ChatApp_sendMessage_Inr [OF p, of e c] obtain w1 :: chat and w2
    where s: "ChatApp_sendMessage e c w = Inr w2"
    and m: "messages w2 = messages w1 @ [\<lparr>msg_id = now2 c + 1, msg_text = settledText (fetched c),
          sender = Bot, timestamp = stamp2 c, requestId = None\<rparr>]"
    by blast
  from m a have l: "messages w2 \<noteq> []" "sender (last (messages w2)) = Bot"
    "msg_text (last (messages w2)) = settledText (Responded True (Parsed data))"
    by simp_all
  show "\<exists>w2. ChatApp_sendMessage e c w = Inr w2 \<and> messages w2 \<noteq> []
          \<and> sender (last (messages w2)) = Bot
          \<and> (\<forall>kvs s. data = JObject kvs \<and> map_of kvs ''output'' = Some (JString s) \<and> s \<noteq> [] \<longrightarrow>
                msg_text (last (messages w2)) = JString s)
          \<and> (data \<noteq> JNull \<and> data \<noteq> JUndefined
              \<and> (\<forall>kvs. data = JObject kvs \<longrightarrow>
                    map_of kvs ''output'' = None \<or> map_of kvs ''output'' = Some (JString [])) \<longrightarrow>
                msg_text (last (messages w2)) = JString ''Sorry, I could not process your request.'')
          \<and> (data = JNull \<longrightarrow>
                msg_text (last (messages w2)) =
                  JString ''Sorry, I encountered an error while processing your request. Please try again.'')"
  proof (intro exI [of _ w2] conjI allI impI)
    fix kvs s
    assume "data = JObject kvs \<and> map_of kvs ''output'' = Some (JString s) \<and> s \<noteq> []"
    with l(3) show "msg_text (last (messages w2)) = JString s"
      by (simp add: settledText_output)
  next
    assume "data \<noteq> JNull \<and> data \<noteq> JUndefined
              \<and> (\<forall>kvs. data = JObject kvs \<longrightarrow>
                    map_of kvs ''output'' = None \<or> map_of kvs ''output'' = Some (JString []))"
    then have "settledText (Responded True (Parsed data)) = JString fallbackText"
      by (intro settledText_no_output) simp_all
    with l(3) show "msg_text (last (messages w2)) = JString ''Sorry, I could not process your request.''"
      by (simp add: fallbackText_def)
  next
    assume "data = JNull"
    with l(3) show "msg_text (last (messages w2)) =
        JString ''Sorry, I encountered an error while processing your request. Please try again.''"
      by (simp add: settledText_null errorText_def)
  qed (use s l in simp_all)
next
  assume a: "trim (inputMessage v) \<noteq> [] \<and> \<not> isLoading v \<and> fetched c = Responded True (Parsed data)"
  then have p: "trim (inputMessage v) \<noteq> []" "\<not> isLoading v" by simp_all
  from Widget_sendMessage_Inr [OF p, of e c] obtain v1 :: widget and v2
    where s: "Widget_sendMessage e c v = Inr v2"
    and m: "messages v2 = messages v1 @ [\<lparr>msg_id = now2 c + 1, msg_text = settledText (fetched c),
          sender = Bot, timestamp = stamp2 c, requestId = Some (uniqueId c)\<rparr>]"
    by blast
  from m a have l: "messages v2 \<noteq> []" "sender (last (messages v2)) = Bot"
    "msg_text (last (messages v2)) = settledText (Responded True (Parsed data))"
    by simp_all
  show "\<exists>v2. Widget_sendMessage e c v = Inr v2 \<and> messages v2 \<noteq> []
          \<and> sender (last (messages v2)) = Bot
          \<and> (\<forall>kvs s. data = JObject kvs \<and> map_of kvs ''output'' = Some (JString s) \<and> s \<noteq> [] \<longrightarrow>
                msg_text (last (messages v2)) = JString s)
          \<and> (data \<noteq> JNull \<and> data \<noteq> JUndefined
              \<and> (\<forall>kvs. data = JObject kvs \<longrightarrow>
                    map_of kvs ''output'' = None \<or> map_of kvs ''output'' = Some (JString [])) \<longrightarrow>
                msg_text (last (messages v2)) = JString ''Sorry, I could not process your request.'')
          \<and> (data = JNull \<longrightarrow>
                msg_text (last (messages v2)) =
                  JString ''Sorry, I encountered an error while processing your request. Please try again.'')"
  proof (intro exI [of _ v2] conjI allI impI)
    fix kvs s
    assume "data = JObject kvs \<and> map_of kvs ''output'' = Some (JString s) \<and> s \<noteq> []"
    with l(3) show "msg_text (last (messages v2)) = JString s"
      by (simp add: settledText_output)
  next
    assume "data \<noteq> JNull \<and> data \<noteq> JUndefined
              \<and> (\<forall>kvs. data = JObject kvs \<longrightarrow>
                    map_of kvs ''output'' = None \<or> map_of kvs ''output'' = Some (JString []))"
    then have "settledText (Responded True (Parsed data)) = JString fallbackText"
      by (intro settledText_no_output) simp_all
    with l(3) show "msg_text (last (messages v2)) = JString ''Sorry, I could not process your request.''"
      by (simp add: fallbackText_def)
  next
    assume "data = JNull"
    with l(3) show "msg_text (last (messages v2)) =
        JString ''Sorry, I encountered an error while processing your request. Please try again.''"
      by (simp add: settledText_null errorText_def)
  qed (use s l in simp_all)
qed

theorem reply_text_of_success_witness:
  "(trim (inputMessage (example_chat ''ping'')) \<noteq> [] \<and> \<not> isLoading (example_chat ''ping'')
     \<and> trim (inputMessage (example_widget ''ping'')) \<noteq> [] \<and> \<not> isLoading (example_widget ''ping''))
   \<and> (\<exists>w2. ChatApp_sendMessage example_env
          (example_call 1000 (Responded True (Parsed (JObject [(''output'', JString ''pong'')]))) 1005)
          (example_chat ''ping'') = Inr w2
        \<and> msg_text (last (messages w2)) = JString ''pong'')
   \<and> (\<exists>v2. Widget_sendMessage example_env
          (example_call 1000 (Responded True (Parsed (JObject [(''output'', JString ''pong'')]))) 1005)
          (example_widget ''ping'') = Inr v2
        \<and> msg_text (last (messages v2)) = JString ''pong'')
   \<and> (\<exists>w2. ChatApp_sendMessage example_env
          (example_call 1000 (Responded True (Parsed (JObject []))) 1005)
          (example_chat ''ping'') = Inr w2
        \<and> msg_text (last (messages w2)) = JString ''Sorry, I could not process your request.'')
   \<and> (\<exists>v2. Widget_sendMessage example_env
          (example_call 1000 (Responded True (Parsed (JObject []))) 1005)
          (example_widget ''ping'') = Inr v2
        \<and> msg_text (last (messages v2)) = JString ''Sorry, I could not process your request.'')
   \<and> (\<exists>w2. ChatApp_sendMessage example_env
          (example_call 1000 (Responded True (Parsed JNull)) 1005)
          (example_chat ''ping'') = Inr w2
        \<and> msg_text (last (messages w2)) =
            JString ''Sorry, I encountered an error while processing your request. Please try again.'')"
proof -
  let ?W = "example_chat ''ping''" and ?V = "example_widget ''ping''"
  have f: "fetched (example_call 1000 r 1005) = r" for r by (simp add: example_call_def)
  note inst = reply_text_of_success [where w = ?W and v = ?V and e = example_env]
  let ?d1 = "JObject [(''output'', JString ''pong'')]"
  from inst [where c = "example_call 1000 (Responded True (Parsed ?d1)) 1005" and data = ?d1]
    example_inputs f
  have a: "(\<exists>w2. ChatApp_sendMessage example_env
          (example_call 1000 (Responded True (Parsed ?d1)) 1005) ?W = Inr w2
        \<and> msg_text (last (messages w2)) = JString ''pong'')"
    and b: "(\<exists>v2. Widget_sendMessage example_env
          (example_call 1000 (Responded True (Parsed ?d1)) 1005) ?V = Inr v2
        \<and> msg_text (last (messages v2)) = JString ''pong'')"
    by auto
  let ?d2 = "JObject []"
  from inst [where c = "example_call 1000 (Responded True (Parsed ?d2)) 1005" and data = ?d2]
    example_inputs f
  have c: "(\<exists>w2. ChatApp_sendMessage example_env
          (example_call 1000 (Responded True (Parsed ?d2)) 1005) ?W = Inr w2
        \<and> msg_text (last (messages w2)) = JString ''Sorry, I could not process your request.'')"
    and d: "(\<exists>v2. Widget_sendMessage example_env
          (example_call 1000 (Responded True (Parsed ?d2)) 1005) ?V = Inr v2
        \<and> msg_text (last (messages v2)) = JString ''Sorry, I could not process your request.'')"
    by auto
  from inst [where c = "example_call 1000 (Responded True (Parsed JNull)) 1005" and data = JNull]
    example_inputs f
  have e: "(\<exists>w2. ChatApp_sendMessage example_env
          (example_call 1000 (Responded True (Parsed JNull)) 1005) ?W = Inr w2
        \<and> msg_text (last (messages w2)) =
            JString ''Sorry, I encountered an error while processing your request. Please try again.'')"
    by auto
  from example_inputs a b c d e show ?thesis by blast
qed

text \<open>
  Claim C4, as stated, fails for the body \<open>null\<close>: the status is ok, the body is
  JSON and has no \<open>output\<close>, and the bot's message is the error message, not the
  fallback.
\<close>

theorem null_body_gets_error_message:
  "map_option (map msg_text)
     (history_after
        (ChatApp_sendMessage example_env (example_call 1000 (Responded True (Parsed JNull)) 1005)
           (example_chat ''ping'')))
   = Some [JString ''ping'',
           JString ''Sorry, I encountered an error while processing your request. Please try again.'']
   \<and> map_option (map msg_text)
     (history_after
        (Widget_sendMessage example_env (example_call 1000 (Responded True (Parsed JNull)) 1005)
           (example_widget ''ping'')))
   = Some [JString ''ping'',
           JString ''Sorry, I encountered an error while processing your request. Please try again.'']"
  by code_simp

section \<open>What is persisted\<close>

lemma ChatApp_saveEffect_store:
  assumes "messages w \<noteq> []"
    and "fits e ((localStorage w)(''chatHistory'' \<mapsto>
           JSON_stringify e (drop (length (messages w) - 100) (messages w))))"
  shows "localStorage (ChatApp_saveEffect e w) =
         (localStorage w)(''chatHistory'' \<mapsto>
           JSON_stringify e (drop (length (messages w) - 100) (messages w)))"
proof -
  have "nat (max (int (length (messages w)) - 100) 0) = length (messages w) - 100" by simp
  with assms show ?thesis
    by (simp add: ChatApp_saveEffect_def setItem_def Let_def)
qed

lemma ChatApp_keeps_last_100:
  assumes "100 < length (f (messages w))"
    and "fits e ((localStorage w)(''chatHistory'' \<mapsto>
           JSON_stringify e (drop (length (f (messages w)) - 100) (f (messages w)))))"
  shows "localStorage (ChatApp_setMessages e f w) ''chatHistory'' =
           Some (JSON_stringify e (drop (length (f (messages w)) - 100) (f (messages w))))
       \<and> length (drop (length (f (messages w)) - 100) (f (messages w))) = 100
       \<and> messages (ChatApp_setMessages e f w) = f (messages w)"
proof -
  let ?w = "w\<lparr>messages := f (messages w)\<rparr>"
  from assms have "messages ?w \<noteq> []" by auto
  moreover from assms(2) have "fits e ((localStorage ?w)(''chatHistory'' \<mapsto>
           JSON_stringify e (drop (length (messages ?w) - 100) (messages ?w))))" by simp
  ultimately have "localStorage (ChatApp_saveEffect e ?w) =
         (localStorage ?w)(''chatHistory'' \<mapsto>
           JSON_stringify e (drop (length (messages ?w) - 100) (messages ?w)))"
    by (rule ChatApp_saveEffect_store)
  with assms(1) show ?thesis
    by (simp add: ChatApp_setMessages_def ChatApp_saveEffect_frame)
qed

lemma Widget_keeps_all:
  assumes "f (messages w) \<noteq> []"
    and "fits e ((localStorage w)(CHAT_MESSAGES \<mapsto> JSON_stringify e (f (messages w))))"
  shows "localStorage (Widget_setMessages e f w) CHAT_MESSAGES =
           Some (JSON_stringify e (f (messages w)))
       \<and> messages (Widget_setMessages e f w) = f (messages w)"
  using assms
  by (simp add: Widget_setMessages_def Widget_saveEffect_def saveToLocalStorage_def setItem_def Let_def)

text \<open>
  Claim C5 says that the stored record holds the most recent 100 messages once more
  than 100 have been appended. The chat application does that (\<open>ChatApp_keeps_last_100\<close>,
  when the store accepts the write); the widget stores the whole history
  (\<open>Widget_keeps_all\<close>). Evaluated: a call that brings a history of 99 messages to
  101 leaves, in the widget, the serialisation of all 101 messages in the store,
  which is not that of the last 100; in the chat application it leaves that of the
  last 100. Neither component truncates the history it shows.
\<close>

theorem widget_persists_more_than_100:
  "map_option length
     (history_after
        (Widget_sendMessage example_env (example_call 1000 Rejected 1005)
           ((example_widget ''ping'')\<lparr>messages := example_history 99\<rparr>)))
   = Some 101
   \<and> stored_after CHAT_MESSAGES
        (Widget_sendMessage example_env (example_call 1000 Rejected 1005)
           ((example_widget ''ping'')\<lparr>messages := example_history 99\<rparr>))
     = map_option (JSON_stringify example_env)
         (history_after
            (Widget_sendMessage example_env (example_call 1000 Rejected 1005)
               ((example_widget ''ping'')\<lparr>messages := example_history 99\<rparr>)))
   \<and> stored_after CHAT_MESSAGES
        (Widget_sendMessage example_env (example_call 1000 Rejected 1005)
           ((example_widget ''ping'')\<lparr>messages := example_history 99\<rparr>))
     \<noteq> map_option (JSON_stringify example_env)
         (map_option (drop 1)
            (history_after
               (Widget_sendMessage example_env (example_call 1000 Rejected 1005)
                  ((example_widget ''ping'')\<lparr>messages := example_history 99\<rparr>))))
   \<and> stored_after ''chatHistory''
        (ChatApp_sendMessage example_env (example_call 1000 Rejected 1005)
           ((example_chat ''ping'')\<lparr>messages := example_history 99\<rparr>))
     = map_option (JSON_stringify example_env)
         (map_option (drop 1)
            (history_after
               (ChatApp_sendMessage example_env (example_call 1000 Rejected 1005)
                  ((example_chat ''ping'')\<lparr>messages := example_history 99\<rparr>))))"
  by code_simp

section \<open>Message identifiers\<close>

lemma ChatApp_ids_increase:
  assumes "trim (inputMessage w) \<noteq> []" "\<not> isLoading w"
    and "sorted_wrt (<) (map msg_id (messages w))"
    and "\<forall>m\<in>set (messages w). msg_id m < now1 c"
    and "now1 c \<le> now2 c"
  shows "\<exists>w2. ChatApp_sendMessage e c w = Inr w2 \<and> sorted_wrt (<) (map msg_id (messages w2))"
proof -
  from ChatApp_sendMessage_Inr [OF assms(1,2), of e c] obtain w1 :: chat and w2
    where "ChatApp_sendMessage e c w = Inr w2"
    and "messages w1 = messages w @ [\<lparr>msg_id = now1 c, msg_text = JString (inputMessage w),
          sender = User, timestamp = stamp1 c, requestId = None\<rparr>]"
    and "messages w2 = messages w1 @ [\<lparr>msg_id = now2 c + 1, msg_text = settledText (fetched c),
          sender = Bot, timestamp = stamp2 c, requestId = None\<rparr>]"
    by blast
  with assms(3-5) show ?thesis
    by (fastforce simp: sorted_wrt_append)
qed

text \<open>
  Claim C6 says that the identifiers of a session are distinct and increase. The
  user's message gets \<open>Date.now()\<close> and the bot's \<open>Date.now() + 1\<close>, so they
  increase as long as every message is built later than the millisecond after the
  one before (\<open>ChatApp_ids_increase\<close>). Evaluated: when the user submits again one
  millisecond after a reply was built, the new message has the reply's identifier;
  when the user submits in the reply's millisecond, the new identifier is smaller.
\<close>

theorem ids_collide_one_millisecond_later:
  "map_option (map msg_id)
     (history_after
        (ChatApp_turns example_env
           [(''ping'', example_call 1000 (Responded True (Parsed (JObject [(''output'', JString ''pong'')]))) 1005),
            (''again'', example_call 1006 (Responded True (Parsed (JObject [(''output'', JString ''pong'')]))) 1010)]
           (example_chat [])))
   = Some [1000, 1006, 1006, 1011]
   \<and> \<not> distinct [1000, 1006, 1006, 1011 :: int]
   \<and> map_option (map msg_id)
     (history_after
        (Widget_turns example_env
           [(''ping'', example_call 1000 (Responded True (Parsed (JObject [(''output'', JString ''pong'')]))) 1005),
            (''again'', example_call 1005 (Responded True (Parsed (JObject [(''output'', JString ''pong'')]))) 1010)]
           (example_widget [])))
   = Some [1000, 1006, 1005, 1011]
   \<and> \<not> sorted [1000, 1006, 1005, 1011 :: int]"
  by code_simp

section \<open>Loading the stored history\<close>

lemma parseStored_fails:
  "JSON_parse e s = None \<or> JSON_parse e s = Some PNull \<or> JSON_parse e s = Some PNotArray
   \<Longrightarrow> \<exists>error. parseStored e s = Inl error"
  by (auto simp: parseStored_def)

text \<open>
  Claim C7, as the code has it. When the stored history is a non-empty string that
  \<open>JSON.parse\<close> rejects, or that parses to something that is not an array, the chat
  application starts with an empty history and removes the record. When it is a
  string that \<open>JSON.parse\<close> rejects, the widget starts with its welcome message
  alone, and the saving effect replaces the record with the new history if the store
  accepts the write.
\<close>

theorem corrupt_history_discarded:
  "(store ''chatHistory'' = Some s \<and> s \<noteq> []
      \<and> (JSON_parse e s = None \<or> JSON_parse e s = Some PNull \<or> JSON_parse e s = Some PNotArray) \<longrightarrow>
      messages (ChatApp_mount e store) = []
      \<and> localStorage (ChatApp_mount e store) = store(''chatHistory'' := None))
   \<and> (store' CHAT_MESSAGES = Some s' \<and> JSON_parse e s' = None \<longrightarrow>
      messages (Widget_mount e now stamp session store') = [welcomeMessage now stamp]
      \<and> (fits e (store'(CHAT_MESSAGES \<mapsto> JSON_stringify e [welcomeMessage now stamp])) \<longrightarrow>
          localStorage (Widget_mount e now stamp session store') =
            store'(CHAT_MESSAGES \<mapsto> JSON_stringify e [welcomeMessage now stamp])))"
proof (intro conjI impI)
  assume a: "store ''chatHistory'' = Some s \<and> s \<noteq> []
      \<and> (JSON_parse e s = None \<or> JSON_parse e s = Some PNull \<or> JSON_parse e s = Some PNotArray)"
  then obtain error where "parseStored e s = Inl error"
    using parseStored_fails [of e s] by blast
  with a show "messages (ChatApp_mount e store) = []"
    and "localStorage (ChatApp_mount e store) = store(''chatHistory'' := None)"
    by (simp_all add: ChatApp_mount_def ChatApp_loadEffect_def removeItem_def)
next
  assume a: "store' CHAT_MESSAGES = Some s' \<and> JSON_parse e s' = None"
  then have g: "getFromLocalStorage e CHAT_MESSAGES store' = PNull"
    by (simp add: getFromLocalStorage_def)
  then show "messages (Widget_mount e now stamp session store') = [welcomeMessage now stamp]"
    by (simp add: Widget_mount_def Widget_loadEffect_def Widget_setMessages_frame)
next
  assume a: "store' CHAT_MESSAGES = Some s' \<and> JSON_parse e s' = None"
  then have g: "getFromLocalStorage e CHAT_MESSAGES store' = PNull"
    by (simp add: getFromLocalStorage_def)
  assume "fits e (store'(CHAT_MESSAGES \<mapsto> JSON_stringify e [welcomeMessage now stamp]))"
  with g show "localStorage (Widget_mount e now stamp session store') =
      store'(CHAT_MESSAGES \<mapsto> JSON_stringify e [welcomeMessage now stamp])"
    by (simp add: Widget_mount_def Widget_loadEffect_def Widget_setMessages_def
        Widget_saveEffect_def saveToLocalStorage_def setItem_def Let_def)
qed

theorem corrupt_history_discarded_witness:
  "([''chatHistory'' \<mapsto> ''{oops''] ''chatHistory'' = Some ''{oops'' \<and> ''{oops'' \<noteq> []
      \<and> JSON_parse example_env ''{oops'' = None)
   \<and> messages (ChatApp_mount example_env [''chatHistory'' \<mapsto> ''{oops'']) = []
   \<and> localStorage (ChatApp_mount example_env [''chatHistory'' \<mapsto> ''{oops'']) ''chatHistory'' = None
   \<and> ([CHAT_MESSAGES \<mapsto> ''{oops''] CHAT_MESSAGES = Some ''{oops'')
   \<and> messages (Widget_mount example_env 1000 1000 ''chat_900_a1b2c3d4e'' [CHAT_MESSAGES \<mapsto> ''{oops''])
       = [welcomeMessage 1000 1000]
   \<and> localStorage (Widget_mount example_env 1000 1000 ''chat_900_a1b2c3d4e'' [CHAT_MESSAGES \<mapsto> ''{oops''])
        CHAT_MESSAGES = Some ''b''"
proof -
  have h1: "[''chatHistory'' \<mapsto> ''{oops''] ''chatHistory'' = Some ''{oops'' \<and> ''{oops'' \<noteq> []
      \<and> (JSON_parse example_env ''{oops'' = None \<or> JSON_parse example_env ''{oops'' = Some PNull
          \<or> JSON_parse example_env ''{oops'' = Some PNotArray)"
    by (simp add: example_env_def)
  have h2: "[CHAT_MESSAGES \<mapsto> ''{oops''] CHAT_MESSAGES = Some ''{oops''
      \<and> JSON_parse example_env ''{oops'' = None"
    by (simp add: example_env_def)
  have f: "fits example_env st" for st by (simp add: example_env_def)
  have j: "JSON_stringify example_env [welcomeMessage 1000 1000] = ''b''"
    by (simp add: example_env_def welcomeMessage_def)
  from corrupt_history_discarded [of "[''chatHistory'' \<mapsto> ''{oops'']" "''{oops''" example_env
      "[CHAT_MESSAGES \<mapsto> ''{oops'']" "''{oops''" 1000 1000 "''chat_900_a1b2c3d4e''"] h1 h2 f j
  show ?thesis by simp
qed

text \<open>
  Claim C7, as stated, fails in the widget: with a corrupt record the conversation
  does not start empty but with the welcome message, and the record is not cleared
  (it is still there when the store refuses the write that would replace it). In
  the chat application a record that is the empty string is not parsed and stays.
\<close>

theorem widget_keeps_corrupt_history:
  "messages (Widget_mount example_env 1000 1000 ''chat_900_a1b2c3d4e'' [CHAT_MESSAGES \<mapsto> ''{oops''])
     = [welcomeMessage 1000 1000]
   \<and> [welcomeMessage 1000 1000] \<noteq> []
   \<and> JSON_parse full_env ''{oops'' = None
   \<and> localStorage
        (Widget_mount full_env 1000 1000 ''chat_900_a1b2c3d4e'' [CHAT_MESSAGES \<mapsto> ''{oops''])
        CHAT_MESSAGES = Some ''{oops''
   \<and> JSON_parse example_env [] = None
   \<and> localStorage (ChatApp_mount example_env [''chatHistory'' \<mapsto> []]) ''chatHistory'' = Some []"
  by code_simp

end
